theory Spec2Isabelle
  imports Complex_Main "HOL-Library.Sublist"
begin

section \<open>Text primitives of the Python runtime\<close>

text \<open>
  A text is a \<^typ>\<open>string\<close>; each \<^typ>\<open>char\<close> stands for the Unicode code point of the
  same number, so the texts of the model are the Python strings over the code points
  0..255. The character classes below are the ones of CPython on that range.
\<close>

definition is_space :: "char \<Rightarrow> bool" where
  \<comment> \<open>\<^verbatim>\<open>str.isspace\<close>: the separators of \<^verbatim>\<open>str.split()\<close> and \<^verbatim>\<open>str.strip()\<close>, and \<^verbatim>\<open>\s\<close>\<close>
  "is_space c =
     (let n = (of_char c :: nat)
      in (9 \<le> n \<and> n \<le> 13) \<or> (28 \<le> n \<and> n \<le> 32) \<or> n = 133 \<or> n = 160)"

fun split_acc :: "string \<Rightarrow> string \<Rightarrow> string list" where
  "split_acc w [] = (if w = [] then [] else [w])"
| "split_acc w (c # cs) =
     (if is_space c then (if w = [] then split_acc [] cs else w # split_acc [] cs)
      else split_acc (w @ [c]) cs)"

definition py_split :: "string \<Rightarrow> string list" where
  \<comment> \<open>\<^verbatim>\<open>content.split()\<close>: the maximal runs of non-whitespace characters\<close>
  "py_split s = split_acc [] s"

fun split_on_acc :: "char \<Rightarrow> string \<Rightarrow> string \<Rightarrow> string list" where
  "split_on_acc sep w [] = [w]"
| "split_on_acc sep w (c # cs) =
     (if c = sep then w # split_on_acc sep [] cs else split_on_acc sep (w @ [c]) cs)"

definition py_split_on :: "char \<Rightarrow> string \<Rightarrow> string list" where
  \<comment> \<open>\<^verbatim>\<open>content.split('.')\<close>: the pieces between occurrences of a one-character separator\<close>
  "py_split_on sep s = split_on_acc sep [] s"

definition py_strip :: "string \<Rightarrow> string" where
  \<comment> \<open>\<^verbatim>\<open>para.strip()\<close>: whitespace removed at both ends\<close>
  "py_strip s = rev (dropWhile is_space (rev (dropWhile is_space s)))"

fun split_nn_acc :: "string \<Rightarrow> string \<Rightarrow> string list" where
  "split_nn_acc w (a # b # cs) =
     (if a = CHR 0x0A \<and> b = CHR 0x0A then w # split_nn_acc [] cs
      else split_nn_acc (w @ [a]) (b # cs))"
| "split_nn_acc w cs = [w @ cs]"

definition py_split_nn :: "string \<Rightarrow> string list" where
  \<comment> \<open>\<^verbatim>\<open>content.split('\n\n')\<close>: left to right, occurrences of the separator do not overlap\<close>
  "py_split_nn s = split_nn_acc [] s"

section \<open>Complexity classification\<close>

text \<open>
  \<^verbatim>\<open>DataPreparationService._assess_complexity\<close>. The quotient is Python's true division
  of two integers; the model takes it exactly, as a rational number.
\<close>

definition assess_complexity :: "string \<Rightarrow> string" where
  "assess_complexity content =
     (let word_count = length (py_split content);
          sentences = py_split_on CHR ''.'' content;
          avg_sentence_length =
            (if sentences \<noteq> [] then rat_of_nat word_count / rat_of_nat (length sentences)
             else 0)
      in if avg_sentence_length > 25 \<or> word_count > 5000 then ''high''
         else if avg_sentence_length > 15 \<or> word_count > 2000 then ''medium''
         else ''low'')"

text \<open>
  The classification as the specification words it, from a word count and a sentence count.
\<close>

definition spec_complexity :: "nat \<Rightarrow> nat \<Rightarrow> string" where
  "spec_complexity word_count sentence_count =
     (let avg = rat_of_nat word_count / rat_of_nat sentence_count
      in if avg > 25 \<or> word_count > 5000 then ''high''
         else if avg > 15 \<or> word_count > 2000 then ''medium''
         else ''low'')"

section \<open>Pair synthesis\<close>

text \<open>
  The fields of a stored document that the synthesizer reads, and the dictionary it
  builds for each example; the question-answer examples carry no \<^verbatim>\<open>tags\<close> key.
\<close>

record document =
  title :: string
  content :: string
  document_type :: string
  domains :: "string list"

record pair_data =
  prompt :: string
  response :: string
  quality_score :: int
  difficulty :: string
  tags :: "string list option"

fun extract_loop :: "string list \<Rightarrow> string list \<Rightarrow> string list" where
  "extract_loop [] clauses = clauses"
| "extract_loop (para # paragraphs) clauses =
     (if length (py_split para) > 10 \<and> length (py_split para) < 100
      then extract_loop paragraphs (clauses @ [py_strip para])
      else extract_loop paragraphs clauses)"

definition extract_sample_clauses :: "string \<Rightarrow> string list" where
  "extract_sample_clauses c = take 5 (extract_loop (py_split_nn c) [])"

definition clause_pair :: "document \<Rightarrow> string \<Rightarrow> pair_data" where
  "clause_pair doc clause =
     \<lparr> prompt = ''Explain this legal clause in simple terms:'' @ [CHR 0x0A, CHR 0x0A]
                  @ [CHR 0x22] @ clause @ [CHR 0x22],
       response = ''This clause means that...'',
       quality_score = 4,
       difficulty = ''medium'',
       tags = Some [''clause_explanation'', document_type doc] \<rparr>"

definition generate_pairs_for_type :: "document \<Rightarrow> string \<Rightarrow> pair_data list" where
  "generate_pairs_for_type doc pair_type =
     (if pair_type = ''summarization'' then
        [ \<lparr> prompt = ''Provide a comprehensive summary of this '' @ document_type doc @ '':''
                     @ [CHR 0x0A, CHR 0x0A] @ take 1000 (content doc) @ ''...'',
            response = ''This '' @ document_type doc
                     @ '' outlines key legal provisions and obligations...'',
            quality_score = 4,
            difficulty = ''medium'',
            tags = Some [''summary'', document_type doc] \<rparr>,
          \<lparr> prompt = ''Give me a brief overview of this legal document:''
                     @ [CHR 0x0A, CHR 0x0A] @ take 500 (content doc) @ ''...'',
            response = ''Brief overview: This document establishes...'',
            quality_score = 3,
            difficulty = ''easy'',
            tags = Some [''overview'', document_type doc] \<rparr> ]
      else if pair_type = ''clause_explanation'' then
        map (clause_pair doc) (take 3 (extract_sample_clauses (content doc)))
      else if pair_type = ''qa'' then
        [ \<lparr> prompt = ''What is the main purpose of this '' @ document_type doc @ ''?'',
            response = ''The main purpose of this '' @ document_type doc @ '' is to...'',
            quality_score = 4,
            difficulty = ''easy'',
            tags = None \<rparr>,
          \<lparr> prompt = ''What are the key obligations in this '' @ document_type doc @ ''?'',
            response = ''The key obligations include...'',
            quality_score = 4,
            difficulty = ''medium'',
            tags = None \<rparr>,
          \<lparr> prompt = ''What happens if someone violates this '' @ document_type doc @ ''?'',
            response = ''If this agreement is violated...'',
            quality_score = 3,
            difficulty = ''hard'',
            tags = None \<rparr> ]
      else [])"

text \<open>
  The candidate paragraphs as the specification words them, with the bounds the code has:
  the paragraphs separated by a blank line that have between 11 and 99 words, stripped.
\<close>

definition candidate_paragraphs :: "string \<Rightarrow> string list" where
  "candidate_paragraphs c =
     map py_strip
       (filter (\<lambda>para. 11 \<le> length (py_split para) \<and> length (py_split para) \<le> 99)
          (py_split_nn c))"

definition ten_word_document :: document where
  "ten_word_document =
     \<lparr> title = ''lease'', content = ''a b c d e f g h i j'',
       document_type = ''contract'', domains = [] \<rparr>"

definition eleven_word_document :: document where
  "eleven_word_document =
     \<lparr> title = ''lease'', content = ''a b c d e f g h i j k'',
       document_type = ''contract'', domains = [] \<rparr>"

section \<open>Records written by a fine-tuning run\<close>

text \<open>
  The rows a run inserts: one per validation query and one of training metrics. Their
  generated identifiers and creation times are not part of the model.
\<close>

record validation_result =
  job_id :: string
  query :: string
  expected_response :: string
  actual_response :: string
  accuracy_score :: rat
  relevance_score :: rat
  readability_score :: rat
  test_category :: string
  difficulty :: string

text \<open>
  The three canned queries of \<^verbatim>\<open>_run_validation_tests\<close> and the row it builds for one of
  them; \<^verbatim>\<open>hash\<close> is the interpreter's hash of a string, a parameter of the model.
\<close>

definition test_queries :: "(string \<times> string \<times> string \<times> string) list" where
  \<comment> \<open>query, expected, category, difficulty\<close>
  "test_queries =
     [(''What does 'liquidated damages' mean in a contract?'',
       ''Liquidated damages are a predetermined amount of money that parties agree will be paid if one party breaches the contract...'',
       ''clause_explanation'', ''medium''),
      (''Explain this clause in simple terms: 'Time is of the essence'' @ [CHR 0x27],
       ''This clause means that meeting deadlines is extremely important and required...'',
       ''simplification'', ''easy''),
      (''What should I know about non-compete agreements?'',
       ''Non-compete agreements prevent you from working for competitors or starting a competing business...'',
       ''qa'', ''medium'')]"

definition validation_test ::
  "(string \<Rightarrow> int) \<Rightarrow> string \<Rightarrow> string \<times> string \<times> string \<times> string \<Rightarrow> validation_result" where
  "validation_test hash job test =
     (case test of (q, expected, category, level) \<Rightarrow>
        let base_accuracy = 80 / 100 + rat_of_int (hash q mod 15) / 100
        in \<lparr> job_id = job,
             query = q,
             expected_response = expected,
             actual_response = ''Generated response for: '' @ q,
             accuracy_score = base_accuracy,
             relevance_score = min (95 / 100) (base_accuracy + 5 / 100),
             readability_score = min (95 / 100) (base_accuracy + 8 / 100),
             test_category = category,
             difficulty = level \<rparr>)"

record training_metrics =
  job_id :: string
  accuracy :: rat
  relevance :: rat
  readability :: rat
  coherence :: rat
  legal_accuracy :: rat
  simplification_score :: rat
  clause_explanation_score :: rat
  qa_score :: rat
  overall_score :: rat
  training_loss :: rat
  validation_loss :: rat
  learning_rate :: rat

section \<open>Stored pairs, dataset metrics and export\<close>

datatype py_error = ZeroDivisionError | ValueError string | Exception string

definition raise_or :: "py_error + 'a \<Rightarrow> ('a \<Rightarrow> py_error + 'b) \<Rightarrow> py_error + 'b" where
  \<comment> \<open>sequencing: an exception raised by the first computation leaves the function\<close>
  "raise_or x f = (case x of Inl e \<Rightarrow> Inl e | Inr v \<Rightarrow> f v)"

definition truediv :: "rat \<Rightarrow> rat \<Rightarrow> py_error + rat" where
  \<comment> \<open>Python's \<^verbatim>\<open>/\<close>, taken exactly\<close>
  "truediv a b = (if b = 0 then Inl ZeroDivisionError else Inr (a / b))"

fun digits_of :: "nat \<Rightarrow> string" where
  "digits_of n =
     (if n < 10 then [''0123456789'' ! n]
      else digits_of (n div 10) @ [''0123456789'' ! (n mod 10)])"

declare digits_of.simps [simp del]

definition py_str :: "int \<Rightarrow> string" where
  \<comment> \<open>\<^verbatim>\<open>str(n)\<close> of an integer\<close>
  "py_str n = (if n < 0 then CHR ''-'' # digits_of (nat (- n)) else digits_of (nat n))"

text \<open>
  A row of the table of prompt-response pairs, with the columns the aggregator and the
  export read, and the columns of a document row that the aggregator reads.
\<close>

record pair_row =
  prompt :: string
  response :: string
  pair_type :: string
  quality_score :: int
  is_verified :: bool
  domain :: "string option"
  difficulty :: "string option"

record document_row =
  language :: string
  domains :: "string list option"

definition tally :: "(string \<rightharpoonup> nat) \<Rightarrow> string \<Rightarrow> (string \<rightharpoonup> nat)" where
  \<comment> \<open>\<^verbatim>\<open>d[k] = d.get(k, 0) + 1\<close>\<close>
  "tally d k = d(k \<mapsto> (case d k of None \<Rightarrow> 0 | Some n \<Rightarrow> n) + 1)"

definition tally_domains :: "(string \<rightharpoonup> nat) \<Rightarrow> document_row \<Rightarrow> (string \<rightharpoonup> nat)" where
  "tally_domains d doc =
     (case domains doc of None \<Rightarrow> d | Some ds \<Rightarrow> if ds = [] then d else foldl tally d ds)"

record dataset_metrics =
  total_documents :: nat
  total_pairs :: nat
  verified_pairs :: nat
  type_distribution :: "string \<rightharpoonup> nat"
  quality_distribution :: "string \<rightharpoonup> nat"
  language_distribution :: "string \<rightharpoonup> nat"
  domain_distribution :: "string \<rightharpoonup> nat"
  average_prompt_length :: rat
  average_response_length :: rat
  average_quality_score :: rat
  verification_rate :: rat

text \<open>
  \<^verbatim>\<open>DataPreparationService.calculate_dataset_metrics\<close>, from the two collections it
  selects. Every division is Python's, which raises on a zero divisor; the snapshot's
  identifier and time stamps are not part of the model.
\<close>

definition calculate_dataset_metrics ::
  "document_row list \<Rightarrow> pair_row list \<Rightarrow> py_error + dataset_metrics" where
  "calculate_dataset_metrics all_documents all_pairs =
     (let total_documents = length all_documents;
          total_pairs = length all_pairs;
          verified_pairs = length (filter is_verified all_pairs);
          type_distribution = foldl tally Map.empty (map pair_type all_pairs);
          quality_distribution =
            foldl tally Map.empty (map (\<lambda>p. py_str (quality_score p)) all_pairs);
          language_distribution = foldl tally Map.empty (map language all_documents);
          domain_distribution = foldl tally_domains Map.empty all_documents
      in raise_or (if total_pairs \<noteq> 0
                   then truediv (of_nat (sum_list (map (\<lambda>p. length (prompt p)) all_pairs)))
                          (of_nat total_pairs)
                   else Inr 0) (\<lambda>avg_prompt_length.
         raise_or (if total_pairs \<noteq> 0
                   then truediv (of_nat (sum_list (map (\<lambda>p. length (response p)) all_pairs)))
                          (of_nat total_pairs)
                   else Inr 0) (\<lambda>avg_response_length.
         raise_or (if total_pairs \<noteq> 0
                   then truediv (of_int (sum_list (map quality_score all_pairs)))
                          (of_nat total_pairs)
                   else Inr 0) (\<lambda>avg_quality.
         raise_or (if total_pairs > 0
                   then raise_or (truediv (of_nat verified_pairs) (of_nat total_pairs))
                          (\<lambda>q. Inr (q * 100))
                   else Inr 0) (\<lambda>rate.
         Inr \<lparr> total_documents = total_documents,
               total_pairs = total_pairs,
               verified_pairs = verified_pairs,
               type_distribution = type_distribution,
               quality_distribution = quality_distribution,
               language_distribution = language_distribution,
               domain_distribution = domain_distribution,
               average_prompt_length = avg_prompt_length,
               average_response_length = avg_response_length,
               average_quality_score = avg_quality,
               verification_rate = rate \<rparr>)))))"

definition four_pairs :: "pair_row list" where
  "four_pairs =
     map (\<lambda>q. \<lparr> prompt = ''p'', response = ''r'', pair_type = ''qa'', quality_score = q,
                is_verified = False, domain = None, difficulty = None \<rparr>) [1, 3, 3, 5]"

text \<open>
  The values a row can hold in the exported columns, and their rendering by
  \<^verbatim>\<open>json.dumps\<close> (default separators, \<^verbatim>\<open>ensure_ascii\<close>) and by \<^verbatim>\<open>csv.writer\<close>
  (the default dialect: comma, double quote, minimal quoting, lines ended by CR LF).
\<close>

datatype py_value = PyStr string | PyInt int | PyNone

fun py_join :: "string \<Rightarrow> string list \<Rightarrow> string" where
  "py_join sep [] = []"
| "py_join sep [x] = x"
| "py_join sep (x # y # ys) = x @ sep @ py_join sep (y # ys)"

definition hex_digit :: "nat \<Rightarrow> char" where
  "hex_digit n = ''0123456789abcdef'' ! n"

definition json_escape :: "char \<Rightarrow> string" where
  "json_escape c =
     (let n = (of_char c :: nat)
      in if c = CHR 0x22 then [CHR 0x5C, CHR 0x22]
         else if c = CHR 0x5C then [CHR 0x5C, CHR 0x5C]
         else if c = CHR 0x0A then [CHR 0x5C, CHR ''n'']
         else if c = CHR 0x0D then [CHR 0x5C, CHR ''r'']
         else if c = CHR 0x09 then [CHR 0x5C, CHR ''t'']
         else if c = CHR 0x08 then [CHR 0x5C, CHR ''b'']
         else if c = CHR 0x0C then [CHR 0x5C, CHR ''f'']
         else if 32 \<le> n \<and> n \<le> 126 then [c]
         else [CHR 0x5C, CHR ''u'', CHR ''0'', CHR ''0'', hex_digit (n div 16), hex_digit (n mod 16)])"

fun json_dumps :: "py_value \<Rightarrow> string" where
  "json_dumps (PyStr s) = [CHR 0x22] @ concat (map json_escape s) @ [CHR 0x22]"
| "json_dumps (PyInt n) = py_str n"
| "json_dumps PyNone = ''null''"

definition json_dumps_dict :: "(string \<times> py_value) list \<Rightarrow> string" where
  "json_dumps_dict kvs =
     ''{'' @ py_join '', '' (map (\<lambda>(k, v). json_dumps (PyStr k) @ '': '' @ json_dumps v) kvs) @ ''}''"

definition csv_field :: "py_value \<Rightarrow> string" where
  "csv_field v =
     (let s = (case v of PyStr s \<Rightarrow> s | PyInt n \<Rightarrow> py_str n | PyNone \<Rightarrow> [])
      in if list_ex (\<lambda>c. c = CHR '','' \<or> c = CHR 0x22 \<or> c = CHR 0x0D \<or> c = CHR 0x0A) s
         then [CHR 0x22] @ concat (map (\<lambda>c. if c = CHR 0x22 then [CHR 0x22, CHR 0x22] else [c]) s)
              @ [CHR 0x22]
         else s)"

definition csv_writerow :: "py_value list \<Rightarrow> string" where
  "csv_writerow row = py_join '','' (map csv_field row) @ [CHR 0x0D, CHR 0x0A]"

definition opt_value :: "string option \<Rightarrow> py_value" where
  "opt_value x = (case x of None \<Rightarrow> PyNone | Some s \<Rightarrow> PyStr s)"

definition export_line :: "pair_row \<Rightarrow> (string \<times> py_value) list" where
  \<comment> \<open>the dictionary built for one pair of the JSON lines export\<close>
  "export_line pair =
     [(''prompt'', PyStr (prompt pair)),
      (''response'', PyStr (response pair)),
      (''type'', PyStr (pair_type pair)),
      (''quality'', PyInt (quality_score pair)),
      (''domain'', opt_value (domain pair)),
      (''difficulty'', opt_value (difficulty pair))]"

definition export_row :: "pair_row \<Rightarrow> py_value list" where
  \<comment> \<open>the row written for one pair of the CSV export\<close>
  "export_row pair =
     [PyStr (prompt pair), PyStr (response pair), PyStr (pair_type pair),
      PyInt (quality_score pair), opt_value (domain pair), opt_value (difficulty pair)]"

text \<open>
  \<^verbatim>\<open>DataPreparationService.export_dataset\<close>, from the collection it selects. A test
  \<^verbatim>\<open>if pair_types:\<close> fails on \<^verbatim>\<open>None\<close> and on the empty list, \<^verbatim>\<open>if min_quality:\<close> fails on 0.
\<close>

definition export_dataset ::
  "pair_row list \<Rightarrow> string \<Rightarrow> string list option \<Rightarrow> int \<Rightarrow> bool \<Rightarrow> py_error + string" where
  "export_dataset all_pairs format pair_types min_quality verified_only =
     (let filtered_pairs = all_pairs;
          filtered_pairs =
            (case pair_types of
               None \<Rightarrow> filtered_pairs
             | Some ts \<Rightarrow> if ts \<noteq> [] then filter (\<lambda>p. pair_type p \<in> set ts) filtered_pairs
                          else filtered_pairs);
          filtered_pairs =
            (if min_quality \<noteq> 0 then filter (\<lambda>p. quality_score p \<ge> min_quality) filtered_pairs
             else filtered_pairs);
          filtered_pairs =
            (if verified_only then filter is_verified filtered_pairs else filtered_pairs)
      in if format = ''jsonl'' then
           Inr (py_join [CHR 0x0A] (map (\<lambda>pair. json_dumps_dict (export_line pair)) filtered_pairs))
         else if format = ''csv'' then
           Inr (csv_writerow (map PyStr [''prompt'', ''response'', ''type'', ''quality'',
                                         ''domain'', ''difficulty''])
                @ concat (map (\<lambda>pair. csv_writerow (export_row pair)) filtered_pairs))
         else Inl (ValueError (''Unsupported format: '' @ format)))"

text \<open>
  The selection as the specification words it, with the two tests as the code has them:
  the type is in the inclusion list when a non-empty list is given, the quality reaches
  the threshold when the threshold is not 0, and the pair is verified when only verified
  pairs are asked for.
\<close>

definition export_selected :: "string list option \<Rightarrow> int \<Rightarrow> bool \<Rightarrow> pair_row \<Rightarrow> bool" where
  "export_selected pair_types min_quality verified_only p =
     ((case pair_types of None \<Rightarrow> True | Some ts \<Rightarrow> ts = [] \<or> pair_type p \<in> set ts)
      \<and> (min_quality = 0 \<or> quality_score p \<ge> min_quality)
      \<and> (\<not> verified_only \<or> is_verified p))"

definition qa_pair :: pair_row where
  "qa_pair = \<lparr> prompt = ''p'', response = ''r'', pair_type = ''qa'', quality_score = 4,
               is_verified = False, domain = None, difficulty = Some ''easy'' \<rparr>"

section \<open>Fine-tuning jobs\<close>

text \<open>
  A row of the table of fine-tuning jobs, and the table keyed by the job identifier. A
  reading of the clock is given to the model from outside, with the two renderings the
  code uses (\<^verbatim>\<open>str\<close> and \<^verbatim>\<open>isoformat\<close>). A store operation that fails raises an
  exception with a message; whether it does is an input of each step (a fault).
\<close>

record job =
  status :: string
  progress :: rat
  start_time :: string
  end_time :: "string option"
  model_id :: "string option"
  logs :: string

record instant =
  as_str :: string
  isoformat :: string

type_synonym jobs_table = "string \<rightharpoonup> job"

definition select_job :: "jobs_table \<Rightarrow> string \<Rightarrow> job list" where
  \<comment> \<open>\<^verbatim>\<open>supabase.select("fine_tuning_jobs", filters={"id": job_id})\<close>\<close>
  "select_job t jid = (case t jid of None \<Rightarrow> [] | Some j \<Rightarrow> [j])"

definition update_job :: "jobs_table \<Rightarrow> (job \<Rightarrow> job) \<Rightarrow> string \<Rightarrow> jobs_table" where
  \<comment> \<open>\<^verbatim>\<open>supabase.update("fine_tuning_jobs", fields, {"id": job_id})\<close>: no row, no change\<close>
  "update_job t f jid = (case t jid of None \<Rightarrow> t | Some j \<Rightarrow> t(jid \<mapsto> f j))"

datatype http_error = HTTPException nat string

text \<open>
  \<^verbatim>\<open>cancel_fine_tuning_job\<close>: its two store operations are the two steps of a task, so
  that another task can run between them.
\<close>

datatype cancel_task =
    CancelSelect
  | CancelUpdate job
  | Responded "http_error + string"

definition cancel_step ::
  "string \<Rightarrow> string \<Rightarrow> instant \<Rightarrow> jobs_table \<times> cancel_task \<Rightarrow> jobs_table \<times> cancel_task" where
  "cancel_step jid username now cfg =
     (case cfg of
        (t, CancelSelect) \<Rightarrow>
          (case select_job t jid of
             [] \<Rightarrow> (t, Responded (Inl (HTTPException 404 ''Fine-tuning job not found'')))
           | j # _ \<Rightarrow>
               if status j \<notin> set [''preparing'', ''training'']
               then (t, Responded (Inl (HTTPException 400
                                          ''Job cannot be cancelled in current status'')))
               else (t, CancelUpdate j))
      | (t, CancelUpdate j) \<Rightarrow>
          (update_job t
             (\<lambda>r. r\<lparr> status := ''failed'',
                      end_time := Some (isoformat now),
                      logs := logs j @ [CHR 0x0A] @ ''Job cancelled by admin '' @ username
                              @ '' at '' @ as_str now \<rparr>)
             jid,
           Responded (Inr ''Job cancelled successfully''))
      | (t, Responded r) \<Rightarrow> (t, Responded r))"

definition cancel_fine_tuning_job ::
  "string \<Rightarrow> string \<Rightarrow> instant \<Rightarrow> jobs_table \<Rightarrow> jobs_table \<times> cancel_task" where
  \<comment> \<open>the request served with no other task in between\<close>
  "cancel_fine_tuning_job jid username now t =
     cancel_step jid username now (cancel_step jid username now (t, CancelSelect))"

definition noon :: instant where
  "noon = \<lparr> as_str = ''2024-01-01 12:00:00'', isoformat = ''2024-01-01T12:00:00'' \<rparr>"

definition fresh_job :: job where
  \<comment> \<open>a job as \<^verbatim>\<open>create_fine_tuning_job\<close> inserts it\<close>
  "fresh_job = \<lparr> status = ''preparing'', progress = 0, start_time = ''2024-01-01T11:59:00'',
                 end_time = None, model_id = None, logs = [] \<rparr>"

definition training_job :: job where
  "training_job = fresh_job\<lparr> status := ''training'' \<rparr>"

definition completed_job :: job where
  "completed_job = fresh_job\<lparr> status := ''completed'', progress := 100 \<rparr>"

definition table_of :: "job \<Rightarrow> jobs_table" where
  "table_of j = [''job-0001'' \<mapsto> j]"

text \<open>
  The tables a fine-tuning run writes. Python's \<^verbatim>\<open>hash\<close> of a string is fixed for
  the life of an interpreter process; the model takes it as a parameter. Scores are
  Python floats in the code and exact rationals here.
\<close>

record store =
  jobs :: jobs_table
  metrics_rows :: "training_metrics list"
  validation_rows :: "validation_result list"

definition training_stages :: "string list" where
  "training_stages =
     [''Preparing training data...'',
      ''Initializing model...'',
      ''Training epoch 1/3...'',
      ''Training epoch 2/3...'',
      ''Training epoch 3/3...'',
      ''Evaluating model performance...'',
      ''Running validation tests...'',
      ''Finalizing model...'']"

definition base_score :: "(string \<Rightarrow> int) \<Rightarrow> string \<Rightarrow> rat" where
  "base_score hash job = 75 / 100 + rat_of_int (hash job mod 20) / 100"

definition evaluate_model :: "(string \<Rightarrow> int) \<Rightarrow> string \<Rightarrow> store \<Rightarrow> training_metrics \<times> store" where
  "evaluate_model hash job s =
     (let b = base_score hash job;
          metrics =
            \<lparr> job_id = job,
              accuracy = min (95 / 100) (b + 5 / 100),
              relevance = min (95 / 100) (b + 3 / 100),
              readability = min (95 / 100) (b + 8 / 100),
              coherence = min (95 / 100) (b + 2 / 100),
              legal_accuracy = min (95 / 100) (b + 1 / 100),
              simplification_score = min (95 / 100) (b + 6 / 100),
              clause_explanation_score = min (95 / 100) (b + 4 / 100),
              qa_score = min (95 / 100) (b + 7 / 100),
              overall_score = b,
              training_loss = 15 / 100,
              validation_loss = 18 / 100,
              learning_rate = 1 / 1000 \<rparr>
      in (metrics, s\<lparr> metrics_rows := metrics_rows s @ [metrics] \<rparr>))"

text \<open>
  \<^verbatim>\<open>FineTuningService._run_training_process\<close> as a task: each step is one awaited
  operation of the code (a store operation, with the statements up to the next one), so
  that other tasks can run between two steps. The task state holds the position in the
  code and the local variables that are live there. A fault of the store operation of a
  step inside the \<^verbatim>\<open>try\<close> block enters the handler; inside the handler it leaves the task.
\<close>

datatype task =
    StageSelect "nat \<times> string" "(nat \<times> string) list"
  | StageUpdate "nat \<times> string" "(nat \<times> string) list" string
  | MoveToEvaluating
  | EvaluateModel
  | ValidationTest "string \<times> string \<times> string \<times> string" "(string \<times> string \<times> string \<times> string) list"
  | CompleteSelect
  | CompleteUpdate string
  | HandlerSelect string
  | HandlerUpdate string string
  | Returned
  | Raised string

fun next_stage :: "(nat \<times> string) list \<Rightarrow> task" where
  "next_stage [] = MoveToEvaluating"
| "next_stage (x # xs) = StageSelect x xs"

fun next_test :: "(string \<times> string \<times> string \<times> string) list \<Rightarrow> task" where
  "next_test [] = CompleteSelect"
| "next_test (x # xs) = ValidationTest x xs"

definition run_training_process :: task where
  \<comment> \<open>the task as \<^verbatim>\<open>asyncio.create_task\<close> starts it\<close>
  "run_training_process = next_stage (List.enumerate 0 training_stages)"

definition current_logs :: "store \<Rightarrow> string \<Rightarrow> string" where
  \<comment> \<open>\<^verbatim>\<open>jobs[0]["logs"] if jobs else ""\<close>\<close>
  "current_logs s job = (case select_job (jobs s) job of [] \<Rightarrow> [] | j # _ \<Rightarrow> logs j)"

definition log_line :: "string \<Rightarrow> instant \<Rightarrow> string \<Rightarrow> string" where
  "log_line old now msg = old @ [CHR 0x0A] @ as_str now @ '': '' @ msg"

fun try_step ::
  "(string \<Rightarrow> int) \<Rightarrow> string \<Rightarrow> instant \<Rightarrow> store \<Rightarrow> task \<Rightarrow> store \<times> task" where
  "try_step hash job now s (StageSelect x xs) = (s, StageUpdate x xs (current_logs s job))"
| "try_step hash job now s (StageUpdate (i, stage) xs old) =
     (s\<lparr> jobs := update_job (jobs s)
            (\<lambda>r. r\<lparr> progress := rat_of_nat i / rat_of_nat (length training_stages) * 80,
                     logs := log_line old now stage \<rparr>) job \<rparr>,
      next_stage xs)"
| "try_step hash job now s MoveToEvaluating =
     (s\<lparr> jobs := update_job (jobs s) (\<lambda>r. r\<lparr> status := ''evaluating'', progress := 80 \<rparr>) job \<rparr>,
      EvaluateModel)"
| "try_step hash job now s EvaluateModel = (snd (evaluate_model hash job s), next_test test_queries)"
| "try_step hash job now s (ValidationTest test tests) =
     (s\<lparr> validation_rows := validation_rows s @ [validation_test hash job test] \<rparr>,
      next_test tests)"
| "try_step hash job now s CompleteSelect = (s, CompleteUpdate (current_logs s job))"
| "try_step hash job now s (CompleteUpdate old) =
     (s\<lparr> jobs := update_job (jobs s)
            (\<lambda>r. r\<lparr> status := ''completed'',
                     progress := 100,
                     end_time := Some (isoformat now),
                     model_id := Some (''legal-model-'' @ take 8 job),
                     logs := log_line old now ''Training completed successfully'' \<rparr>) job \<rparr>,
      Returned)"
| "try_step hash job now s t = (s, t)"

definition in_try :: "task \<Rightarrow> bool" where
  "in_try t = (case t of HandlerSelect _ \<Rightarrow> False | HandlerUpdate _ _ \<Rightarrow> False
                | Returned \<Rightarrow> False | Raised _ \<Rightarrow> False | _ \<Rightarrow> True)"

definition run_training_step ::
  "(string \<Rightarrow> int) \<Rightarrow> string \<Rightarrow> instant \<Rightarrow> string option \<Rightarrow> store \<times> task \<Rightarrow> store \<times> task" where
  "run_training_step hash job now fault cfg =
     (case cfg of (s, t) \<Rightarrow>
        if in_try t then
          (case fault of Some e \<Rightarrow> (s, HandlerSelect e) | None \<Rightarrow> try_step hash job now s t)
        else
          (case t of
             HandlerSelect e \<Rightarrow>
               (case fault of Some e' \<Rightarrow> (s, Raised e')
                | None \<Rightarrow> (s, HandlerUpdate e (current_logs s job)))
           | HandlerUpdate e old \<Rightarrow>
               (case fault of Some e' \<Rightarrow> (s, Raised e')
                | None \<Rightarrow>
                   (s\<lparr> jobs := update_job (jobs s)
                          (\<lambda>r. r\<lparr> status := ''failed'',
                                   end_time := Some (isoformat now),
                                   logs := log_line old now (''Training failed: '' @ e) \<rparr>) job \<rparr>,
                    Returned))
           | _ \<Rightarrow> (s, t)))"

text \<open>
  \<^verbatim>\<open>FineTuningService.start_training\<close>, with a fault for each of its store operations
  (the select, the update, and the update of the handler). The handler raises the
  exception again after its update; a fault of that update is the exception that leaves.
\<close>

fun error_text :: "py_error \<Rightarrow> string" where
  "error_text (Exception m) = m"
| "error_text (ValueError m) = m"
| "error_text ZeroDivisionError = ''division by zero''"

definition start_training ::
  "string \<Rightarrow> instant \<Rightarrow> string option \<Rightarrow> string option \<Rightarrow> string option \<Rightarrow> jobs_table
     \<Rightarrow> jobs_table \<times> (py_error + task)" where
  "start_training job now select_fault update_fault handler_fault t =
     (let attempt =
            (case select_fault of
               Some e \<Rightarrow> Inl (Exception e)
             | None \<Rightarrow>
                 if select_job t job = [] then Inl (ValueError (''Job '' @ job @ '' not found''))
                 else (case update_fault of
                         Some e \<Rightarrow> Inl (Exception e)
                       | None \<Rightarrow>
                           Inr (update_job t
                                  (\<lambda>r. r\<lparr> status := ''training'',
                                           start_time := isoformat now \<rparr>) job)))
      in case attempt of
           Inr t' \<Rightarrow> (t', Inr run_training_process)
         | Inl e \<Rightarrow>
             (case handler_fault of
                Some e' \<Rightarrow> (t, Inl (Exception e'))
              | None \<Rightarrow>
                  (update_job t
                     (\<lambda>r. r\<lparr> status := ''failed'',
                              logs := ''Training failed: '' @ error_text e \<rparr>) job,
                   Inl e)))"

text \<open>
  The simulator and a cancel request on one job, interleaved by a schedule: each event
  lets one of the two tasks take its next step.
\<close>

datatype event = Simulator instant "string option" | Cancel instant

definition interleave ::
  "(string \<Rightarrow> int) \<Rightarrow> string \<Rightarrow> string \<Rightarrow> store \<times> task \<times> cancel_task \<Rightarrow> event
     \<Rightarrow> store \<times> task \<times> cancel_task" where
  "interleave hash job username cfg ev =
     (case cfg of (s, t, c) \<Rightarrow>
        (case ev of
           Simulator now fault \<Rightarrow>
             (case run_training_step hash job now fault (s, t) of (s', t') \<Rightarrow> (s', t', c))
         | Cancel now \<Rightarrow>
             (case cancel_step job username now (jobs s, c) of
                (tbl, c') \<Rightarrow> (s\<lparr> jobs := tbl \<rparr>, t, c'))))"

definition run_schedule ::
  "(string \<Rightarrow> int) \<Rightarrow> string \<Rightarrow> string \<Rightarrow> event list \<Rightarrow> store \<times> task \<times> cancel_task
     \<Rightarrow> store \<times> task \<times> cancel_task" where
  "run_schedule hash job username evs cfg = foldl (interleave hash job username) cfg evs"

definition status_of :: "store \<times> task \<times> cancel_task \<Rightarrow> string \<Rightarrow> string option" where
  "status_of cfg job = map_option status (jobs (fst cfg) job)"

definition progress_of :: "store \<times> task \<times> cancel_task \<Rightarrow> string \<Rightarrow> rat option" where
  "progress_of cfg job = map_option progress (jobs (fst cfg) job)"

definition length_hash :: "string \<Rightarrow> int" where
  \<comment> \<open>a stand-in for the interpreter's hash in the examples\<close>
  "length_hash s = int (length s)"

definition training_start :: "store \<times> task \<times> cancel_task" where
  \<comment> \<open>a job that \<^verbatim>\<open>start_training\<close> has set to training, its task spawned, and a cancel
      request that has arrived\<close>
  "training_start =
     (\<lparr> jobs = table_of training_job, metrics_rows = [], validation_rows = [] \<rparr>,
      run_training_process, CancelSelect)"

definition cancel_after_first_stage :: "event list" where
  \<comment> \<open>the first stage is logged, the request is served during the sleep that follows,
      and the simulator then runs on undisturbed\<close>
  "cancel_after_first_stage =
     replicate 2 (Simulator noon None) @ replicate 2 (Cancel noon)
     @ replicate 21 (Simulator noon None)"

definition salted_hash :: "int \<Rightarrow> string \<Rightarrow> int" where
  \<comment> \<open>a stand-in for the interpreter's string hash in a process with the given salt\<close>
  "salted_hash salt s = int (length s) + salt"

definition empty_store :: store where
  "empty_store = \<lparr> jobs = Map.empty, metrics_rows = [], validation_rows = [] \<rparr>"

section \<open>Redaction\<close>

text \<open>
  The regular expressions of the redaction engine, and Python's \<^verbatim>\<open>re.sub\<close> on them.
  A pattern is matched by backtracking: the matcher below lists the ways a pattern can
  match at a position in the order in which Python tries them (the left alternative
  first, a greedy repetition from its longest run down), and the match is the first one.
  The character classes are CPython's for a \<^verbatim>\<open>str\<close> pattern on the code points 0..255.
\<close>

definition code :: "char \<Rightarrow> nat" where
  "code c = of_char c"

definition is_digit :: "char \<Rightarrow> bool" where
  \<comment> \<open>\<^verbatim>\<open>\d\<close>\<close>
  "is_digit c = (48 \<le> code c \<and> code c \<le> 57)"

definition is_upper :: "char \<Rightarrow> bool" where
  \<comment> \<open>\<^verbatim>\<open>[A-Z]\<close>\<close>
  "is_upper c = (65 \<le> code c \<and> code c \<le> 90)"

definition is_lower :: "char \<Rightarrow> bool" where
  \<comment> \<open>\<^verbatim>\<open>[a-z]\<close>\<close>
  "is_lower c = (97 \<le> code c \<and> code c \<le> 122)"

definition is_letter :: "char \<Rightarrow> bool" where
  \<comment> \<open>\<^verbatim>\<open>[A-Za-z]\<close>, with or without \<^verbatim>\<open>re.IGNORECASE\<close>\<close>
  "is_letter c = (is_upper c \<or> is_lower c)"

definition is_word :: "char \<Rightarrow> bool" where
  \<comment> \<open>\<^verbatim>\<open>\w\<close>: alphanumeric in Unicode, or the underscore\<close>
  "is_word c =
     (is_letter c \<or> is_digit c \<or> c = CHR ''_''
      \<or> code c \<in> {170, 178, 179, 181, 185, 186, 188, 189, 190}
      \<or> (192 \<le> code c \<and> code c \<le> 214) \<or> (216 \<le> code c \<and> code c \<le> 246)
      \<or> 248 \<le> code c)"

definition same_letter :: "char \<Rightarrow> char \<Rightarrow> bool" where
  \<comment> \<open>a literal letter of a pattern compiled with \<^verbatim>\<open>re.IGNORECASE\<close>\<close>
  "same_letter l c =
     (c = l \<or> (is_upper l \<and> code c = code l + 32) \<or> (is_lower l \<and> code c + 32 = code l))"

datatype rx =
    Eps
  | Chr "char \<Rightarrow> bool"
  | Seq rx rx
  | Alt rx rx
  | Opt rx
  | Rep nat "nat option" "char \<Rightarrow> bool"
  | WordB

text \<open>
  A state of the matcher is the character before the position (none at the start of the
  text) and the text from the position on. \<open>Rep m n p\<close> is the greedy repetition
  \<^verbatim>\<open>p{m,n}\<close> of a character class, \<open>Opt\<close> the greedy \<^verbatim>\<open>?\<close>, \<open>WordB\<close> is \<^verbatim>\<open>\b\<close>.
\<close>

definition at_boundary :: "char option \<Rightarrow> string \<Rightarrow> bool" where
  "at_boundary prev s =
     ((case prev of None \<Rightarrow> False | Some c \<Rightarrow> is_word c)
      \<noteq> (case s of [] \<Rightarrow> False | c # _ \<Rightarrow> is_word c))"

definition after :: "char option \<Rightarrow> string \<Rightarrow> nat \<Rightarrow> char option \<times> string" where
  \<comment> \<open>the state \<open>i\<close> characters further\<close>
  "after prev s i = (if i = 0 then prev else Some (s ! (i - 1)), drop i s)"

fun rx_match :: "rx \<Rightarrow> char option \<Rightarrow> string \<Rightarrow> (char option \<times> string) list" where
  "rx_match Eps prev s = [(prev, s)]"
| "rx_match (Chr p) prev s =
     (case s of [] \<Rightarrow> [] | c # cs \<Rightarrow> if p c then [(Some c, cs)] else [])"
| "rx_match (Seq a b) prev s =
     concat (map (\<lambda>st. rx_match b (fst st) (snd st)) (rx_match a prev s))"
| "rx_match (Alt a b) prev s = rx_match a prev s @ rx_match b prev s"
| "rx_match (Opt a) prev s = rx_match a prev s @ [(prev, s)]"
| "rx_match (Rep m n p) prev s =
     (let run = length (takeWhile p s);
          most = (case n of None \<Rightarrow> run | Some n \<Rightarrow> min run n)
      in map (after prev s) (rev [m..<Suc most]))"
| "rx_match WordB prev s = (if at_boundary prev s then [(prev, s)] else [])"

text \<open>
  \<^verbatim>\<open>re.sub(pattern, repl, string)\<close>: the text is scanned from the left; where the
  pattern matches, the replacement is written and the scan goes on behind the match
  (the matcher still sees the original character before the position); elsewhere the
  character is copied. The replacements of this program contain no backslash, so they
  are written as they stand. Every match of the seven patterns below consumes a
  character (each has a part that needs one), so the last branch, for a match that
  consumes nothing, is never taken for them: there CPython writes the replacement and
  looks for a non-empty match at the same position before it copies the character, and the
  model copies the character at once.
\<close>

function sub_from :: "rx \<Rightarrow> string \<Rightarrow> char option \<Rightarrow> string \<Rightarrow> string" where
  "sub_from r repl prev s =
     (case rx_match r prev s of
        [] \<Rightarrow> (case s of [] \<Rightarrow> [] | c # cs \<Rightarrow> c # sub_from r repl (Some c) cs)
      | st # _ \<Rightarrow>
          if length (snd st) < length s then repl @ sub_from r repl (fst st) (snd st)
          else (case s of [] \<Rightarrow> repl | c # cs \<Rightarrow> repl @ c # sub_from r repl (Some c) cs))"
  by pat_completeness auto
termination
  by (relation "measure (\<lambda>(r, repl, prev, s). length s)") auto

declare sub_from.simps [simp del]

definition re_sub :: "rx \<Rightarrow> string \<Rightarrow> string \<Rightarrow> string" where
  "re_sub r repl s = sub_from r repl None s"

fun seqs :: "rx list \<Rightarrow> rx" where
  "seqs [] = Eps"
| "seqs [r] = r"
| "seqs (r # rs) = Seq r (seqs rs)"

fun alts :: "rx list \<Rightarrow> rx" where
  "alts [] = Eps"
| "alts [r] = r"
| "alts (r # rs) = Alt r (alts rs)"

definition lit :: "string \<Rightarrow> rx" where
  \<comment> \<open>a literal text, matched exactly\<close>
  "lit s = seqs (map (\<lambda>l. Chr (\<lambda>c. c = l)) s)"

definition lit_i :: "string \<Rightarrow> rx" where
  \<comment> \<open>a literal text under \<^verbatim>\<open>re.IGNORECASE\<close>\<close>
  "lit_i s = seqs (map (\<lambda>l. Chr (same_letter l)) s)"

definition ssn_pattern :: rx where
  \<comment> \<open>\<^verbatim>\<open>\b\d{3}-\d{2}-\d{4}\b\<close>\<close>
  "ssn_pattern =
     seqs [WordB, Rep 3 (Some 3) is_digit, lit ''-'', Rep 2 (Some 2) is_digit, lit ''-'',
           Rep 4 (Some 4) is_digit, WordB]"

definition email_pattern :: rx where
  \<comment> \<open>\<^verbatim>\<open>\b[A-Za-z0-9._%+-]+@[A-Za-z0-9.-]+\.[A-Z|a-z]{2,}\b\<close>\<close>
  "email_pattern =
     seqs [WordB,
           Rep 1 None (\<lambda>c. is_letter c \<or> is_digit c \<or> c \<in> set ''._%+-''),
           lit ''@'',
           Rep 1 None (\<lambda>c. is_letter c \<or> is_digit c \<or> c \<in> set ''.-''),
           lit ''.'',
           Rep 2 None (\<lambda>c. is_letter c \<or> c = CHR ''|''),
           WordB]"

definition phone_pattern :: rx where
  \<comment> \<open>\<^verbatim>\<open>\b\d{3}[-.]?\d{3}[-.]?\d{4}\b\<close>\<close>
  "phone_pattern =
     seqs [WordB, Rep 3 (Some 3) is_digit, Opt (Chr (\<lambda>c. c \<in> set ''-.'')),
           Rep 3 (Some 3) is_digit, Opt (Chr (\<lambda>c. c \<in> set ''-.'')),
           Rep 4 (Some 4) is_digit, WordB]"

definition address_pattern :: rx where
  \<comment> \<open>\<^verbatim>\<open>\b\d{1,5}\s+[A-Za-z\s]+(?:Street|St|Avenue|Ave|Road|Rd|Boulevard|Blvd|Lane|Ln|Drive|Dr|Court|Ct|Place|Pl)\b\<close>\<close>
  "address_pattern =
     seqs [WordB, Rep 1 (Some 5) is_digit, Rep 1 None is_space,
           Rep 1 None (\<lambda>c. is_letter c \<or> is_space c),
           alts (map lit_i [''Street'', ''St'', ''Avenue'', ''Ave'', ''Road'', ''Rd'',
                            ''Boulevard'', ''Blvd'', ''Lane'', ''Ln'', ''Drive'', ''Dr'',
                            ''Court'', ''Ct'', ''Place'', ''Pl'']),
           WordB]"

definition amount_pattern :: rx where
  \<comment> \<open>\<^verbatim>\<open>\$[\d,]+(?:\.\d{2})?\<close>\<close>
  "amount_pattern =
     seqs [lit ''$'', Rep 1 None (\<lambda>c. is_digit c \<or> c = CHR '',''),
           Opt (Seq (lit ''.'') (Rep 2 (Some 2) is_digit))]"

definition sensitive_patterns :: "(rx \<times> string) list" where
  "sensitive_patterns =
     [(ssn_pattern, ''[SSN_REDACTED]''),
      (email_pattern, ''[EMAIL_REDACTED]''),
      (phone_pattern, ''[PHONE_REDACTED]''),
      (address_pattern, ''[ADDRESS_REDACTED]''),
      (amount_pattern, ''[AMOUNT_REDACTED]'')]"

definition first_last_pattern :: rx where
  \<comment> \<open>\<^verbatim>\<open>\b[A-Z][a-z]+ [A-Z][a-z]+\b\<close>\<close>
  "first_last_pattern =
     seqs [WordB, Chr is_upper, Rep 1 None is_lower, lit '' '',
           Chr is_upper, Rep 1 None is_lower, WordB]"

definition title_name_pattern :: rx where
  \<comment> \<open>\<^verbatim>\<open>\b(?:Mr\.|Mrs\.|Ms\.|Dr\.)\s+[A-Z][a-z]+\b\<close>\<close>
  "title_name_pattern =
     seqs [WordB, alts (map lit [''Mr.'', ''Mrs.'', ''Ms.'', ''Dr.'']),
           Rep 1 None is_space, Chr is_upper, Rep 1 None is_lower, WordB]"

definition name_patterns :: "rx list" where
  "name_patterns = [first_last_pattern, title_name_pattern]"

definition anonymize_names :: "string \<Rightarrow> string" where
  "anonymize_names t = foldl (\<lambda>result pattern. re_sub pattern ''[NAME_REDACTED]'' result) t name_patterns"

definition redact :: "(rx \<times> string) list \<Rightarrow> string \<Rightarrow> string" where
  \<comment> \<open>the loop over the patterns, each pass on the text the passes before it left\<close>
  "redact patterns c = foldl (\<lambda>anonymized pr. re_sub (fst pr) (snd pr) anonymized) c patterns"

definition anonymize_content :: "string \<Rightarrow> string" where
  "anonymize_content c = anonymize_names (redact sensitive_patterns c)"

text \<open>
  \<^verbatim>\<open>re.search(pattern, text) is not None\<close>: the pattern matches at some position.
\<close>

fun rx_search :: "rx \<Rightarrow> char option \<Rightarrow> string \<Rightarrow> bool" where
  "rx_search r prev [] = (rx_match r prev [] \<noteq> [])"
| "rx_search r prev (c # cs) = (rx_match r prev (c # cs) \<noteq> [] \<or> rx_search r (Some c) cs)"

definition redaction_tokens :: "string list" where
  "redaction_tokens =
     [''[SSN_REDACTED]'', ''[EMAIL_REDACTED]'', ''[PHONE_REDACTED]'', ''[ADDRESS_REDACTED]'',
      ''[AMOUNT_REDACTED]'', ''[NAME_REDACTED]'']"

text \<open>
  Two properties of a pattern, read off its syntax: every character that a match
  consumes is in a class \<open>P\<close>, and every match consumes a character of a class \<open>K\<close>.
\<close>

fun consumes :: "rx \<Rightarrow> (char \<Rightarrow> bool) \<Rightarrow> bool" where
  "consumes Eps P = True"
| "consumes (Chr p) P = (\<forall>c. p c \<longrightarrow> P c)"
| "consumes (Seq a b) P = (consumes a P \<and> consumes b P)"
| "consumes (Alt a b) P = (consumes a P \<and> consumes b P)"
| "consumes (Opt a) P = consumes a P"
| "consumes (Rep m n p) P = (\<forall>c. p c \<longrightarrow> P c)"
| "consumes WordB P = True"

fun needs :: "rx \<Rightarrow> (char \<Rightarrow> bool) \<Rightarrow> bool" where
  "needs Eps K = False"
| "needs (Chr p) K = (\<forall>c. p c \<longrightarrow> K c)"
| "needs (Seq a b) K = (needs a K \<or> needs b K)"
| "needs (Alt a b) K = (needs a K \<and> needs b K)"
| "needs (Opt a) K = False"
| "needs (Rep m n p) K = (0 < m \<and> (\<forall>c. p c \<longrightarrow> K c))"
| "needs WordB K = False"

definition unbracketed :: "char \<Rightarrow> bool" where
  "unbracketed c = (c \<noteq> CHR ''['' \<and> c \<noteq> CHR '']'')"

definition token_letter :: "char \<Rightarrow> bool" where
  \<comment> \<open>the characters between the brackets of a redaction token\<close>
  "token_letter c = (is_upper c \<or> c = CHR ''_'')"

section \<open>Properties\<close>

lemma split_on_acc_nonempty: "split_on_acc sep w s \<noteq> []"
  by (induction s arbitrary: w) auto

text \<open>
  C2. The complexity tier of a text is determined by its word count and its sentence
  count (the number of pieces between periods) alone: high when the average sentence
  length exceeds 25 or the word count exceeds 5000, otherwise medium when the average
  exceeds 15 or the word count exceeds 2000, otherwise low. In particular 6000 words in
  10 sentences are high, 1000 words in 50 sentences are medium and 100 words in 20
  sentences are low.
\<close>

theorem assess_complexity_by_counts:
  "assess_complexity t =
     spec_complexity (length (py_split t)) (length (py_split_on CHR ''.'' t))
   \<and> spec_complexity 6000 10 = ''high''
   \<and> spec_complexity 1000 50 = ''medium''
   \<and> spec_complexity 100 20 = ''low''"
proof -
  have "py_split_on CHR ''.'' t \<noteq> []"
    by (simp add: py_split_on_def split_on_acc_nonempty)
  then have "assess_complexity t =
     spec_complexity (length (py_split t)) (length (py_split_on CHR ''.'' t))"
    by (simp add: assess_complexity_def spec_complexity_def Let_def)
  moreover have "spec_complexity 6000 10 = ''high''"
    by (simp add: spec_complexity_def Let_def)
  moreover have "spec_complexity 1000 50 = ''medium''"
    by (simp add: spec_complexity_def Let_def)
  moreover have "spec_complexity 100 20 = ''low''"
    by (simp add: spec_complexity_def Let_def)
  ultimately show ?thesis by simp
qed

lemma extract_loop_filter:
  "extract_loop ps acc =
     acc @ map py_strip
       (filter (\<lambda>para. 11 \<le> length (py_split para) \<and> length (py_split para) \<le> 99) ps)"
proof (induction ps arbitrary: acc)
  case Nil
  show ?case by simp
next
  case (Cons para ps)
  have "(10 < length (py_split para) \<and> length (py_split para) < 100)
        = (11 \<le> length (py_split para) \<and> length (py_split para) \<le> 99)"
    by arith
  with Cons show ?case by simp
qed

lemma is_space_blank: "is_space CHR '' ''"
  by (simp add: is_space_def)

lemma not_space_letter:
  "\<not> is_space CHR ''a''" "\<not> is_space CHR ''b''" "\<not> is_space CHR ''c''"
  "\<not> is_space CHR ''d''" "\<not> is_space CHR ''e''" "\<not> is_space CHR ''f''"
  "\<not> is_space CHR ''g''" "\<not> is_space CHR ''h''" "\<not> is_space CHR ''i''"
  "\<not> is_space CHR ''j''" "\<not> is_space CHR ''k''"
  by (simp_all add: is_space_def)

lemma ten_words: "py_split ''a b c d e f g h i j'' =
    [''a'', ''b'', ''c'', ''d'', ''e'', ''f'', ''g'', ''h'', ''i'', ''j'']"
  by (simp add: py_split_def is_space_blank not_space_letter)

lemma eleven_words: "py_split ''a b c d e f g h i j k'' =
    [''a'', ''b'', ''c'', ''d'', ''e'', ''f'', ''g'', ''h'', ''i'', ''j'', ''k'']"
  by (simp add: py_split_def is_space_blank not_space_letter)

lemma ten_words_one_paragraph: "py_split_nn ''a b c d e f g h i j'' = [''a b c d e f g h i j'']"
  by (simp add: py_split_nn_def)

lemma eleven_words_one_paragraph:
  "py_split_nn ''a b c d e f g h i j k'' = [''a b c d e f g h i j k'']"
  by (simp add: py_split_nn_def)

text \<open>
  C9, as stated, fails: a document whose only paragraph has exactly 10 words has a
  paragraph of length 10 to 99 words, yet the synthesizer produces no clause explanation
  for it.
\<close>

theorem ten_word_paragraph_is_no_candidate:
  "py_split_nn (content ten_word_document) = [content ten_word_document]
   \<and> length (py_split (content ten_word_document)) = 10
   \<and> generate_pairs_for_type ten_word_document ''clause_explanation'' = []"
  by (simp add: ten_word_document_def ten_words ten_words_one_paragraph
      generate_pairs_for_type_def extract_sample_clauses_def)

text \<open>
  C9, amended. For every document the synthesizer produces exactly two pairs for
  summarization, exactly three for qa, and for clause explanation one pair per candidate
  paragraph, in order, for the first 3 candidate paragraphs at most, where a candidate
  paragraph is a paragraph (separated by a blank line) of 11 to 99 words.
\<close>

theorem generate_pairs_counts:
  "length (generate_pairs_for_type doc ''summarization'') = 2
   \<and> length (generate_pairs_for_type doc ''qa'') = 3
   \<and> generate_pairs_for_type doc ''clause_explanation''
       = map (clause_pair doc) (take 3 (candidate_paragraphs (content doc)))
   \<and> length (generate_pairs_for_type doc ''clause_explanation'')
       = min 3 (length (candidate_paragraphs (content doc)))"
proof -
  have c: "take 3 (extract_sample_clauses (content doc))
           = take 3 (candidate_paragraphs (content doc))"
    by (simp add: extract_sample_clauses_def candidate_paragraphs_def extract_loop_filter)
  have "length (generate_pairs_for_type doc ''summarization'') = 2"
    by (simp add: generate_pairs_for_type_def)
  moreover have "length (generate_pairs_for_type doc ''qa'') = 3"
    by (simp add: generate_pairs_for_type_def)
  moreover have e: "generate_pairs_for_type doc ''clause_explanation''
       = map (clause_pair doc) (take 3 (candidate_paragraphs (content doc)))"
    by (simp add: generate_pairs_for_type_def c)
  moreover have "length (generate_pairs_for_type doc ''clause_explanation'')
       = min 3 (length (candidate_paragraphs (content doc)))"
    by (simp add: e min.commute)
  ultimately show ?thesis by simp
qed

theorem generate_pairs_counts_witness:
  "candidate_paragraphs (content eleven_word_document) = [''a b c d e f g h i j k'']
   \<and> length (generate_pairs_for_type eleven_word_document ''clause_explanation'') = 1"
proof -
  have c: "candidate_paragraphs (content eleven_word_document) = [''a b c d e f g h i j k'']"
    by (simp add: candidate_paragraphs_def eleven_word_document_def eleven_words
        eleven_words_one_paragraph py_strip_def not_space_letter)
  from generate_pairs_counts [of eleven_word_document] c show ?thesis by simp
qed

lemma truediv_nonzero: "b \<noteq> 0 \<Longrightarrow> truediv a b = Inr (a / b)"
  by (simp add: truediv_def)

lemma raise_or_Inr: "raise_or (Inr v) f = f v"
  by (simp add: raise_or_def)

lemma metrics_of_pairs:
  assumes "all_pairs \<noteq> []"
  shows "calculate_dataset_metrics all_documents all_pairs =
     Inr \<lparr> total_documents = length all_documents,
           total_pairs = length all_pairs,
           verified_pairs = length (filter is_verified all_pairs),
           type_distribution = foldl tally Map.empty (map pair_type all_pairs),
           quality_distribution =
             foldl tally Map.empty (map (\<lambda>p. py_str (quality_score p)) all_pairs),
           language_distribution = foldl tally Map.empty (map language all_documents),
           domain_distribution = foldl tally_domains Map.empty all_documents,
           average_prompt_length =
             of_nat (sum_list (map (\<lambda>p. length (prompt p)) all_pairs)) / of_nat (length all_pairs),
           average_response_length =
             of_nat (sum_list (map (\<lambda>p. length (response p)) all_pairs)) / of_nat (length all_pairs),
           average_quality_score =
             of_int (sum_list (map quality_score all_pairs)) / of_nat (length all_pairs),
           verification_rate =
             of_nat (length (filter is_verified all_pairs)) / of_nat (length all_pairs) * 100 \<rparr>"
  using assms
  by (simp add: calculate_dataset_metrics_def Let_def truediv_nonzero raise_or_Inr)

lemma metrics_of_no_pairs:
  "calculate_dataset_metrics all_documents [] =
     Inr \<lparr> total_documents = length all_documents,
           total_pairs = 0,
           verified_pairs = 0,
           type_distribution = Map.empty,
           quality_distribution = Map.empty,
           language_distribution = foldl tally Map.empty (map language all_documents),
           domain_distribution = foldl tally_domains Map.empty all_documents,
           average_prompt_length = 0,
           average_response_length = 0,
           average_quality_score = 0,
           verification_rate = 0 \<rparr>"
  by (simp add: calculate_dataset_metrics_def Let_def raise_or_Inr)

lemma py_str_digit: "py_str 1 = ''1''" "py_str 3 = ''3''" "py_str 5 = ''5''"
  by (simp_all add: py_str_def digits_of.simps)

lemma four_scores:
  assumes "map quality_score ps = [1, 3, 3, 5]"
  shows "foldl tally Map.empty (map (\<lambda>p. py_str (quality_score p)) ps)
           = [''1'' \<mapsto> 1, ''3'' \<mapsto> 2, ''5'' \<mapsto> 1]"
proof -
  have "map (\<lambda>p. py_str (quality_score p)) ps = map py_str (map quality_score ps)"
    by simp
  also have "\<dots> = [''1'', ''3'', ''3'', ''5'']"
    by (simp add: assms py_str_digit)
  finally show ?thesis
    by (simp add: tally_def numeral_2_eq_2)
qed

text \<open>
  C3. The aggregator never fails with a division by zero. For an empty pair collection
  the verification rate and the average quality score are 0; for a collection of exactly
  4 pairs with the quality scores 1, 3, 3, 5 the average quality score is 3 and the
  quality distribution is the dictionary with "1" counted once, "3" twice and "5" once,
  keyed by the score's string form.
\<close>

theorem calculate_dataset_metrics_cases:
  "(\<exists>m. calculate_dataset_metrics docs ps = Inr m)
   \<and> (\<exists>m. calculate_dataset_metrics docs [] = Inr m
          \<and> verification_rate m = 0 \<and> average_quality_score m = 0)
   \<and> (map quality_score ps = [1, 3, 3, 5] \<longrightarrow>
        (\<exists>m. calculate_dataset_metrics docs ps = Inr m
           \<and> average_quality_score m = 3
           \<and> quality_distribution m = [''1'' \<mapsto> 1, ''3'' \<mapsto> 2, ''5'' \<mapsto> 1]))"
proof -
  have total: "\<exists>m. calculate_dataset_metrics docs ps = Inr m"
  proof (cases "ps = []")
    case True
    then show ?thesis by (simp add: metrics_of_no_pairs)
  next
    case False
    then show ?thesis by (simp add: metrics_of_pairs)
  qed
  have none: "\<exists>m. calculate_dataset_metrics docs [] = Inr m
          \<and> verification_rate m = 0 \<and> average_quality_score m = 0"
    by (simp add: metrics_of_no_pairs)
  have four: "\<exists>m. calculate_dataset_metrics docs ps = Inr m
           \<and> average_quality_score m = 3
           \<and> quality_distribution m = [''1'' \<mapsto> 1, ''3'' \<mapsto> 2, ''5'' \<mapsto> 1]"
    if h: "map quality_score ps = [1, 3, 3, 5]"
  proof -
    from h have ne: "ps \<noteq> []" by auto
    have "length (map quality_score ps) = 4"
      by (simp add: h)
    then have len: "length ps = 4"
      by simp
    have avg: "rat_of_int (sum_list (map quality_score ps)) / rat_of_nat (length ps) = 3"
      by (simp add: h len)
    show ?thesis
      by (simp add: metrics_of_pairs [OF ne] avg four_scores [OF h])
  qed
  from total none four show ?thesis by blast
qed

theorem calculate_dataset_metrics_cases_witness:
  "map quality_score four_pairs = [1, 3, 3, 5]
   \<and> (\<exists>m. calculate_dataset_metrics [] four_pairs = Inr m
          \<and> average_quality_score m = 3
          \<and> quality_distribution m = [''1'' \<mapsto> 1, ''3'' \<mapsto> 2, ''5'' \<mapsto> 1])"
proof -
  have h: "map quality_score four_pairs = [1, 3, 3, 5]"
    by (simp add: four_pairs_def)
  with calculate_dataset_metrics_cases [of "[]" four_pairs] show ?thesis by blast
qed

lemma export_filter:
  "(let filtered_pairs = all_pairs;
        filtered_pairs =
          (case pair_types of
             None \<Rightarrow> filtered_pairs
           | Some ts \<Rightarrow> if ts \<noteq> [] then filter (\<lambda>p. pair_type p \<in> set ts) filtered_pairs
                        else filtered_pairs);
        filtered_pairs =
          (if min_quality \<noteq> 0 then filter (\<lambda>p. quality_score p \<ge> min_quality) filtered_pairs
           else filtered_pairs);
        filtered_pairs =
          (if verified_only then filter is_verified filtered_pairs else filtered_pairs)
    in f filtered_pairs)
   = f (filter (export_selected pair_types min_quality verified_only) all_pairs)"
proof -
  have "export_selected pair_types min_quality verified_only
        = (\<lambda>p. (case pair_types of None \<Rightarrow> True | Some ts \<Rightarrow> ts = [] \<or> pair_type p \<in> set ts)
             \<and> (min_quality = 0 \<or> quality_score p \<ge> min_quality)
             \<and> (\<not> verified_only \<or> is_verified p))"
    by (rule ext) (simp add: export_selected_def)
  then show ?thesis
    by (cases pair_types) (auto simp add: Let_def conj_commute intro!: arg_cong [where f = f] filter_cong)
qed

lemma digit_char: "k < 10 \<Longrightarrow> ''0123456789'' ! k \<in> set ''0123456789''"
  by (rule nth_mem) simp

lemma digits_of_plain: "set (digits_of n) \<subseteq> set ''0123456789''"
proof (induction n rule: digits_of.induct)
  case (1 n)
  show ?case
  proof (cases "n < 10")
    case True
    then have "digits_of n = [''0123456789'' ! n]"
      by (subst digits_of.simps) simp
    with digit_char [OF True] show ?thesis
      by simp
  next
    case False
    then have d: "digits_of n = digits_of (n div 10) @ [''0123456789'' ! (n mod 10)]"
      by (subst digits_of.simps) simp
    have "n mod 10 < 10" by simp
    then have "''0123456789'' ! (n mod 10) \<in> set ''0123456789''"
      by (rule digit_char)
    with 1 [OF False] show ?thesis
      unfolding d by simp
  qed
qed

lemma digits_of_unquoted:
  assumes "c \<in> set (digits_of k)"
  shows "c \<noteq> CHR '','' \<and> c \<noteq> CHR 0x22 \<and> c \<noteq> CHR 0x0D \<and> c \<noteq> CHR 0x0A"
proof -
  from assms digits_of_plain have "c \<in> set ''0123456789''"
    by blast
  then show ?thesis
    by auto
qed

lemma csv_field_int: "csv_field (PyInt n) = py_str n"
proof -
  have "\<not> list_ex (\<lambda>c. c = CHR '','' \<or> c = CHR 0x22 \<or> c = CHR 0x0D \<or> c = CHR 0x0A) (py_str n)"
  proof (cases "n < 0")
    case True
    then have "py_str n = CHR ''-'' # digits_of (nat (- n))"
      by (simp add: py_str_def)
    then show ?thesis
      using digits_of_unquoted [of _ "nat (- n)"] by (simp add: list_ex_iff)
  next
    case False
    then have "py_str n = digits_of (nat n)"
      by (simp add: py_str_def)
    then show ?thesis
      using digits_of_unquoted [of _ "nat n"] by (simp add: list_ex_iff)
  qed
  then show ?thesis
    by (simp add: csv_field_def)
qed

lemma qa_pair_line:
  \<open>json_dumps_dict (export_line qa_pair) =
     ''{"prompt": "p", "response": "r", "type": "qa", "quality": 4, "domain": null, "difficulty": "easy"}''\<close>
  by (simp add: json_dumps_dict_def export_line_def qa_pair_def opt_value_def json_escape_def
      py_str_def digits_of.simps)

text \<open>
  C8, as stated, fails: with an empty inclusion list given, a pair whose type is not in
  the list is exported all the same.
\<close>

theorem export_with_empty_type_list:
  \<open>pair_type qa_pair \<notin> set []
   \<and> export_dataset [qa_pair] ''jsonl'' (Some []) 3 False =
       Inr ''{"prompt": "p", "response": "r", "type": "qa", "quality": 4, "domain": null, "difficulty": "easy"}''\<close>
  by (simp add: export_dataset_def Let_def qa_pair_line) (simp add: qa_pair_def)

text \<open>
  C8, amended. For every stored pair collection and every filter combination the export
  outputs exactly the pairs, in stored order, that satisfy the conjunction of the three
  filters: the pair type is in the inclusion list when a non-empty list is given (an
  empty list selects like no list), the quality score is at least the minimum quality
  when that is not 0 (a threshold of 0 applies no quality filter), and the pair is
  verified when only verified pairs are asked for. The format jsonl gives one JSON
  record per selected pair with the fields prompt, response, type, quality, domain,
  difficulty, joined by newlines; csv gives the header line of these six names followed
  by one line per selected pair in the same field order; any other format is an error.
\<close>

theorem export_dataset_selects:
  \<open>export_dataset ps ''jsonl'' pts mq vo =
     Inr (py_join [CHR 0x0A]
            (map (\<lambda>p. json_dumps_dict (export_line p)) (filter (export_selected pts mq vo) ps)))
   \<and> export_dataset ps ''csv'' pts mq vo =
     Inr (''prompt,response,type,quality,domain,difficulty'' @ [CHR 0x0D, CHR 0x0A]
          @ concat (map (\<lambda>p. csv_writerow (export_row p)) (filter (export_selected pts mq vo) ps)))
   \<and> (fmt \<noteq> ''jsonl'' \<and> fmt \<noteq> ''csv'' \<longrightarrow> (\<exists>e. export_dataset ps fmt pts mq vo = Inl e))
   \<and> json_dumps_dict (export_line p) =
       ''{"prompt": '' @ json_dumps (PyStr (prompt p))
       @ '', "response": '' @ json_dumps (PyStr (response p))
       @ '', "type": '' @ json_dumps (PyStr (pair_type p))
       @ '', "quality": '' @ py_str (quality_score p)
       @ '', "domain": '' @ json_dumps (opt_value (domain p))
       @ '', "difficulty": '' @ json_dumps (opt_value (difficulty p)) @ ''}''
   \<and> csv_writerow (export_row p) =
       csv_field (PyStr (prompt p)) @ '','' @ csv_field (PyStr (response p)) @ '',''
       @ csv_field (PyStr (pair_type p)) @ '','' @ py_str (quality_score p) @ '',''
       @ csv_field (opt_value (domain p)) @ '','' @ csv_field (opt_value (difficulty p))
       @ [CHR 0x0D, CHR 0x0A]\<close>
proof -
  have header: "csv_writerow [PyStr ''prompt'', PyStr ''response'', PyStr ''type'',
                              PyStr ''quality'', PyStr ''domain'', PyStr ''difficulty'']
                = ''prompt,response,type,quality,domain,difficulty'' @ [CHR 0x0D, CHR 0x0A]"
    by (simp add: csv_writerow_def csv_field_def Let_def)
  have j: "export_dataset ps ''jsonl'' pts mq vo =
     Inr (py_join [CHR 0x0A]
            (map (\<lambda>p. json_dumps_dict (export_line p)) (filter (export_selected pts mq vo) ps)))"
    unfolding export_dataset_def by (subst export_filter) simp
  have c: "export_dataset ps ''csv'' pts mq vo =
     Inr (''prompt,response,type,quality,domain,difficulty'' @ [CHR 0x0D, CHR 0x0A]
          @ concat (map (\<lambda>p. csv_writerow (export_row p)) (filter (export_selected pts mq vo) ps)))"
    unfolding export_dataset_def by (subst export_filter) (simp add: header)
  have e: "fmt \<noteq> ''jsonl'' \<and> fmt \<noteq> ''csv'' \<longrightarrow> (\<exists>e. export_dataset ps fmt pts mq vo = Inl e)"
    unfolding export_dataset_def by (subst export_filter) simp
  have l: \<open>json_dumps_dict (export_line p) =
       ''{"prompt": '' @ json_dumps (PyStr (prompt p))
       @ '', "response": '' @ json_dumps (PyStr (response p))
       @ '', "type": '' @ json_dumps (PyStr (pair_type p))
       @ '', "quality": '' @ py_str (quality_score p)
       @ '', "domain": '' @ json_dumps (opt_value (domain p))
       @ '', "difficulty": '' @ json_dumps (opt_value (difficulty p)) @ ''}''\<close>
    by (simp add: json_dumps_dict_def export_line_def json_escape_def)
  have r: "csv_writerow (export_row p) =
       csv_field (PyStr (prompt p)) @ '','' @ csv_field (PyStr (response p)) @ '',''
       @ csv_field (PyStr (pair_type p)) @ '','' @ py_str (quality_score p) @ '',''
       @ csv_field (opt_value (domain p)) @ '','' @ csv_field (opt_value (difficulty p))
       @ [CHR 0x0D, CHR 0x0A]"
    by (simp add: csv_writerow_def export_row_def csv_field_int)
  show ?thesis
    by (intro conjI) (rule j, rule c, rule e, rule l, rule r)
qed

theorem export_dataset_selects_witness:
  \<open>''xml'' \<noteq> ''jsonl'' \<and> ''xml'' \<noteq> ''csv''
   \<and> export_selected (Some [''qa'']) 3 False qa_pair
   \<and> export_dataset [qa_pair] ''jsonl'' (Some [''qa'']) 3 False =
       Inr ''{"prompt": "p", "response": "r", "type": "qa", "quality": 4, "domain": null, "difficulty": "easy"}''
   \<and> export_dataset [qa_pair] ''csv'' (Some [''qa'']) 3 False =
       Inr (''prompt,response,type,quality,domain,difficulty'' @ [CHR 0x0D, CHR 0x0A]
            @ ''p,r,qa,4,,easy'' @ [CHR 0x0D, CHR 0x0A])
   \<and> (\<exists>e. export_dataset [qa_pair] ''xml'' (Some [''qa'']) 3 False = Inl e)\<close>
proof -
  have s: "export_selected (Some [''qa'']) 3 False qa_pair"
    by (simp add: export_selected_def qa_pair_def)
  have x: "''xml'' \<noteq> ''jsonl'' \<and> ''xml'' \<noteq> ''csv''"
    by simp
  have r: "csv_writerow (export_row qa_pair) = ''p,r,qa,4,,easy'' @ [CHR 0x0D, CHR 0x0A]"
    by (simp add: csv_writerow_def export_row_def qa_pair_def csv_field_def opt_value_def
        py_str_def digits_of.simps)
  from export_dataset_selects
    [where ps = "[qa_pair]" and pts = "Some [''qa'']" and mq = 3 and vo = False
       and fmt = "''xml''" and p = qa_pair]
  show ?thesis
    by (simp add: s x r qa_pair_line)
qed

lemma cancel_missing:
  "t jid = None \<Longrightarrow>
   cancel_fine_tuning_job jid username now t =
     (t, Responded (Inl (HTTPException 404 ''Fine-tuning job not found'')))"
  by (simp add: cancel_fine_tuning_job_def cancel_step_def select_job_def)

lemma cancel_refused:
  "t jid = Some j \<Longrightarrow> status j \<noteq> ''preparing'' \<Longrightarrow> status j \<noteq> ''training'' \<Longrightarrow>
   cancel_fine_tuning_job jid username now t =
     (t, Responded (Inl (HTTPException 400 ''Job cannot be cancelled in current status'')))"
  by (simp add: cancel_fine_tuning_job_def cancel_step_def select_job_def)

lemma cancel_done:
  "t jid = Some j \<Longrightarrow> status j = ''preparing'' \<or> status j = ''training'' \<Longrightarrow>
   cancel_fine_tuning_job jid username now t =
     (t(jid \<mapsto> j\<lparr> status := ''failed'',
                      end_time := Some (isoformat now),
                      logs := logs j @ [CHR 0x0A] @ ''Job cancelled by admin '' @ username
                              @ '' at '' @ as_str now \<rparr>),
      Responded (Inr ''Job cancelled successfully''))"
  by (auto simp add: cancel_fine_tuning_job_def cancel_step_def select_job_def update_job_def)

text \<open>
  C6. The cancel operation succeeds exactly when the job exists and its status is
  preparing or training, and it then leaves the job failed; on a job whose status is
  evaluating, completed or failed it answers with an error and the table is unchanged.
  (Any error answer leaves the table unchanged.)
\<close>

theorem cancel_iff_running:
  "((\<exists>m. snd (cancel_fine_tuning_job jid username now t) = Responded (Inr m))
      \<longleftrightarrow> (\<exists>j. t jid = Some j \<and> (status j = ''preparing'' \<or> status j = ''training'')))
   \<and> ((\<exists>m. snd (cancel_fine_tuning_job jid username now t) = Responded (Inr m))
        \<longrightarrow> (\<exists>j'. fst (cancel_fine_tuning_job jid username now t) jid = Some j'
                  \<and> status j' = ''failed''))
   \<and> (\<forall>j. t jid = Some j \<and> status j \<in> {''evaluating'', ''completed'', ''failed''}
        \<longrightarrow> (\<exists>e. snd (cancel_fine_tuning_job jid username now t) = Responded (Inl e))
            \<and> fst (cancel_fine_tuning_job jid username now t) = t)
   \<and> ((\<exists>e. snd (cancel_fine_tuning_job jid username now t) = Responded (Inl e))
        \<longrightarrow> fst (cancel_fine_tuning_job jid username now t) = t)"
proof (cases "t jid")
  case None
  then show ?thesis
    by (simp add: cancel_missing)
next
  case (Some j)
  show ?thesis
  proof (cases "status j = ''preparing'' \<or> status j = ''training''")
    case True
    with Some show ?thesis
      by (auto simp add: cancel_done)
  next
    case False
    with Some show ?thesis
      by (simp add: cancel_refused)
  qed
qed

theorem cancel_iff_running_witness:
  "table_of training_job ''job-0001'' = Some training_job
   \<and> status training_job = ''training''
   \<and> (\<exists>m. snd (cancel_fine_tuning_job ''job-0001'' ''root'' noon (table_of training_job))
            = Responded (Inr m))
   \<and> (\<exists>j'. fst (cancel_fine_tuning_job ''job-0001'' ''root'' noon (table_of training_job))
              ''job-0001'' = Some j' \<and> status j' = ''failed'')
   \<and> table_of completed_job ''job-0001'' = Some completed_job
   \<and> status completed_job \<in> {''evaluating'', ''completed'', ''failed''}
   \<and> (\<exists>e. snd (cancel_fine_tuning_job ''job-0001'' ''root'' noon (table_of completed_job))
            = Responded (Inl e))
   \<and> fst (cancel_fine_tuning_job ''job-0001'' ''root'' noon (table_of completed_job))
       = table_of completed_job"
proof -
  have a: "table_of training_job ''job-0001'' = Some training_job"
    by (simp add: table_of_def)
  have b: "status training_job = ''training''"
    by (simp add: training_job_def)
  have c: "table_of completed_job ''job-0001'' = Some completed_job"
    by (simp add: table_of_def)
  have d: "status completed_job \<in> {''evaluating'', ''completed'', ''failed''}"
    by (simp add: completed_job_def)
  from cancel_iff_running [of "''job-0001''" "''root''" noon "table_of training_job"] a b
  have "(\<exists>m. snd (cancel_fine_tuning_job ''job-0001'' ''root'' noon (table_of training_job))
            = Responded (Inr m))
   \<and> (\<exists>j'. fst (cancel_fine_tuning_job ''job-0001'' ''root'' noon (table_of training_job))
              ''job-0001'' = Some j' \<and> status j' = ''failed'')"
    by blast
  moreover
  from cancel_iff_running [of "''job-0001''" "''root''" noon "table_of completed_job"] c d
  have "(\<exists>e. snd (cancel_fine_tuning_job ''job-0001'' ''root'' noon (table_of completed_job))
            = Responded (Inl e))
   \<and> fst (cancel_fine_tuning_job ''job-0001'' ''root'' noon (table_of completed_job))
       = table_of completed_job"
    by blast
  ultimately show ?thesis
    using a b c d by blast
qed

lemma base_score_range: "75 / 100 \<le> base_score hash job \<and> base_score hash job \<le> 94 / 100"
proof -
  have "0 \<le> hash job mod 20" and "hash job mod 20 \<le> 19"
    by simp_all
  then have "0 \<le> rat_of_int (hash job mod 20)" and "rat_of_int (hash job mod 20) \<le> 19"
    by simp_all
  then show ?thesis
    by (simp add: base_score_def)
qed

lemma base_score_eq_iff:
  "(base_score hash job = base_score hash' job') = (hash job mod 20 = hash' job' mod 20)"
  by (simp add: base_score_def)

lemma evaluate_model_eq_iff:
  "(fst (evaluate_model hash job s) = fst (evaluate_model hash' job s'))
     = (hash job mod 20 = hash' job mod 20)"
proof
  assume "fst (evaluate_model hash job s) = fst (evaluate_model hash' job s')"
  then have "overall_score (fst (evaluate_model hash job s))
             = overall_score (fst (evaluate_model hash' job s'))"
    by simp
  then have "base_score hash job = base_score hash' job"
    by (simp add: evaluate_model_def Let_def)
  then show "hash job mod 20 = hash' job mod 20"
    by (simp add: base_score_eq_iff)
next
  assume "hash job mod 20 = hash' job mod 20"
  then have "base_score hash job = base_score hash' job"
    by (simp add: base_score_eq_iff)
  then show "fst (evaluate_model hash job s) = fst (evaluate_model hash' job s')"
    by (simp add: evaluate_model_def Let_def)
qed

text \<open>
  C7, as stated, fails: the record is computed from Python's \<^verbatim>\<open>hash\<close> of the job
  identifier, which is salted anew in every interpreter process. In two processes whose
  hashes of the same job identifier are 8 and 13, the overall scores are 0.83 and 0.88:
  two evaluations of one job identifier give different records.
\<close>

theorem evaluation_differs_between_processes:
  "salted_hash 0 ''job-0001'' = 8 \<and> salted_hash 5 ''job-0001'' = 13
   \<and> overall_score (fst (evaluate_model (salted_hash 0) ''job-0001'' empty_store)) = 83 / 100
   \<and> overall_score (fst (evaluate_model (salted_hash 5) ''job-0001'' empty_store)) = 88 / 100
   \<and> fst (evaluate_model (salted_hash 0) ''job-0001'' empty_store)
       \<noteq> fst (evaluate_model (salted_hash 5) ''job-0001'' empty_store)"
proof -
  have a: "salted_hash 0 ''job-0001'' = 8" and b: "salted_hash 5 ''job-0001'' = 13"
    by (simp_all add: salted_hash_def)
  have c: "overall_score (fst (evaluate_model (salted_hash 0) ''job-0001'' empty_store)) = 83 / 100"
    by (simp add: evaluate_model_def Let_def base_score_def a)
  have d: "overall_score (fst (evaluate_model (salted_hash 5) ''job-0001'' empty_store)) = 88 / 100"
    by (simp add: evaluate_model_def Let_def base_score_def b)
  have "fst (evaluate_model (salted_hash 0) ''job-0001'' empty_store)
       \<noteq> fst (evaluate_model (salted_hash 5) ''job-0001'' empty_store)"
    by (simp add: evaluate_model_eq_iff a b)
  with a b c d show ?thesis
    by blast
qed

text \<open>
  C7, amended. For every job identifier, the training metrics record that an evaluation
  produces is a function of the job identifier and of the interpreter's hash of it,
  taken modulo 20, and of nothing else (not the store, not the clock): two evaluations
  of the same job identifier yield identical records exactly when the hashes in force
  agree modulo 20, so always within one interpreter process, and not in general across
  processes. Every score in the record is at most 0.95.
\<close>

theorem evaluate_model_by_hash:
  "((fst (evaluate_model hash job s) = fst (evaluate_model hash' job s'))
      = (hash job mod 20 = hash' job mod 20))
   \<and> fst (evaluate_model hash job s) = fst (evaluate_model hash job s')
   \<and> accuracy (fst (evaluate_model hash job s)) \<le> 95 / 100
   \<and> relevance (fst (evaluate_model hash job s)) \<le> 95 / 100
   \<and> readability (fst (evaluate_model hash job s)) \<le> 95 / 100
   \<and> coherence (fst (evaluate_model hash job s)) \<le> 95 / 100
   \<and> legal_accuracy (fst (evaluate_model hash job s)) \<le> 95 / 100
   \<and> simplification_score (fst (evaluate_model hash job s)) \<le> 95 / 100
   \<and> clause_explanation_score (fst (evaluate_model hash job s)) \<le> 95 / 100
   \<and> qa_score (fst (evaluate_model hash job s)) \<le> 95 / 100
   \<and> overall_score (fst (evaluate_model hash job s)) \<le> 95 / 100"
proof -
  have "base_score hash job \<le> 95 / 100"
    using base_score_range [of hash job] by simp
  then have bounds:
    "accuracy (fst (evaluate_model hash job s)) \<le> 95 / 100
   \<and> relevance (fst (evaluate_model hash job s)) \<le> 95 / 100
   \<and> readability (fst (evaluate_model hash job s)) \<le> 95 / 100
   \<and> coherence (fst (evaluate_model hash job s)) \<le> 95 / 100
   \<and> legal_accuracy (fst (evaluate_model hash job s)) \<le> 95 / 100
   \<and> simplification_score (fst (evaluate_model hash job s)) \<le> 95 / 100
   \<and> clause_explanation_score (fst (evaluate_model hash job s)) \<le> 95 / 100
   \<and> qa_score (fst (evaluate_model hash job s)) \<le> 95 / 100
   \<and> overall_score (fst (evaluate_model hash job s)) \<le> 95 / 100"
    by (simp add: evaluate_model_def Let_def min_def)
  have same: "fst (evaluate_model hash job s) = fst (evaluate_model hash job s')"
    by (simp add: evaluate_model_eq_iff)
  from evaluate_model_eq_iff [of hash job s hash' s'] same bounds show ?thesis
    by blast
qed

theorem evaluate_model_by_hash_witness:
  "salted_hash 0 ''job-0001'' mod 20 = salted_hash 20 ''job-0001'' mod 20
   \<and> fst (evaluate_model (salted_hash 0) ''job-0001'' empty_store)
       = fst (evaluate_model (salted_hash 20) ''job-0001''
                (snd (evaluate_model (salted_hash 0) ''job-0001'' empty_store)))
   \<and> overall_score (fst (evaluate_model (salted_hash 0) ''job-0001'' empty_store)) \<le> 95 / 100"
proof -
  have h: "salted_hash 0 ''job-0001'' mod 20 = salted_hash 20 ''job-0001'' mod 20"
    by (simp add: salted_hash_def)
  from evaluate_model_by_hash
    [of "salted_hash 0" "''job-0001''" empty_store "salted_hash 20"
        "snd (evaluate_model (salted_hash 0) ''job-0001'' empty_store)"] h
  show ?thesis
    by blast
qed

text \<open>
  C4 fails on the code. A job is training and its first stage is logged; a cancel
  request is served while the simulator sleeps and sets the job to failed; the simulator
  never reads the status, so its next stage writes the progress of the failed job, and
  at its end it writes the status completed: the job has been in two terminal states.
\<close>

theorem cancelled_job_completes:
  "status_of (run_schedule length_hash ''job-0001'' ''root''
                (take 4 cancel_after_first_stage) training_start) ''job-0001'' = Some ''failed''
   \<and> progress_of (run_schedule length_hash ''job-0001'' ''root''
                (take 4 cancel_after_first_stage) training_start) ''job-0001'' = Some 0
   \<and> status_of (run_schedule length_hash ''job-0001'' ''root''
                (take 6 cancel_after_first_stage) training_start) ''job-0001'' = Some ''failed''
   \<and> progress_of (run_schedule length_hash ''job-0001'' ''root''
                (take 6 cancel_after_first_stage) training_start) ''job-0001'' = Some 10
   \<and> status_of (run_schedule length_hash ''job-0001'' ''root''
                cancel_after_first_stage training_start) ''job-0001'' = Some ''completed''
   \<and> progress_of (run_schedule length_hash ''job-0001'' ''root''
                cancel_after_first_stage training_start) ''job-0001'' = Some 100"
  by code_simp

lemma start_training_update_fault:
  assumes "t jid = Some j"
  shows "start_training jid now None (Some e) None t =
           (t(jid \<mapsto> j\<lparr> status := ''failed'', logs := ''Training failed: '' @ e \<rparr>),
            Inl (Exception e))"
  using assms
  by (simp add: start_training_def select_job_def update_job_def)

lemma handler_appends:
  assumes "in_try task" and "jobs s jid = Some j"
  shows "run_training_step hash jid now2 None
           (run_training_step hash jid now1 None
              (run_training_step hash jid now0 (Some e) (s, task))) =
         (s\<lparr> jobs := (jobs s)(jid \<mapsto>
               j\<lparr> status := ''failed'',
                  end_time := Some (isoformat now2),
                  logs := logs j @ [CHR 0x0A] @ as_str now2 @ '': Training failed: '' @ e \<rparr>) \<rparr>,
          Returned)"
  using assms
  by (simp add: run_training_step_def in_try_def current_logs_def select_job_def
      update_job_def log_line_def)

text \<open>
  C5 fails on the code. The status update of \<^verbatim>\<open>start_training\<close> fails on a job just
  created; the handler of \<^verbatim>\<open>start_training\<close> sets the job to failed, but it stamps no end
  time and it replaces the log text instead of appending to it (whatever the log held).
  The handler of \<^verbatim>\<open>_run_training_process\<close> does both (lemma \<open>handler_appends\<close>).
\<close>

theorem start_training_failure_loses_end_time:
  "start_training ''job-0001'' noon None (Some ''Update failed: timeout'') None
       (table_of fresh_job) =
     (table_of (fresh_job\<lparr> status := ''failed'',
                           logs := ''Training failed: Update failed: timeout'' \<rparr>),
      Inl (Exception ''Update failed: timeout''))
   \<and> end_time (fresh_job\<lparr> status := ''failed'',
                           logs := ''Training failed: Update failed: timeout'' \<rparr>) = None
   \<and> start_training ''job-0001'' noon None (Some ''Update failed: timeout'') None
       (table_of (fresh_job\<lparr> logs := ''queued'' \<rparr>)) =
     (table_of (fresh_job\<lparr> status := ''failed'',
                           logs := ''Training failed: Update failed: timeout'' \<rparr>),
      Inl (Exception ''Update failed: timeout''))"
  by (simp add: start_training_update_fault table_of_def fresh_job_def)

subsection \<open>Redaction\<close>

text \<open>
  A match consumes a piece of the text in front of it. When every character that a pattern
  consumes is in \<open>P\<close> and every match needs a character of \<open>K\<close>, the pattern matches
  nowhere in a run of characters outside \<open>K\<close> that a character outside \<open>P\<close> ends. None of
  the seven patterns consumes a bracket and each needs a character that is no capital
  letter and no underscore, so a substitution copies every redaction token it meets.
\<close>

lemma rx_match_consumed:
  assumes "st \<in> set (rx_match r prev s)"
  shows "\<exists>u. s = u @ snd st
           \<and> fst st = (if u = [] then prev else Some (last u))
           \<and> (consumes r P \<longrightarrow> (\<forall>c\<in>set u. P c))
           \<and> (needs r K \<longrightarrow> (\<exists>c\<in>set u. K c))"
  using assms
proof (induction r arbitrary: prev s st)
  case Eps
  then have "st = (prev, s)"
    by simp
  then show ?case
    by (intro exI [of _ "[]"]) simp
next
  case (Chr p)
  show ?case
  proof (cases s)
    case Nil
    with Chr show ?thesis by simp
  next
    case (Cons c cs)
    with Chr have pc: "p c" and st: "st = (Some c, cs)"
      by (auto split: if_splits)
    show ?thesis
      by (rule exI [of _ "[c]"]) (use pc st Cons in simp)
  qed
next
  case (Seq a b)
  from Seq.prems obtain mid where mid: "mid \<in> set (rx_match a prev s)"
    and st: "st \<in> set (rx_match b (fst mid) (snd mid))"
    by auto
  from Seq.IH(1) [OF mid] obtain u where u: "s = u @ snd mid"
    "fst mid = (if u = [] then prev else Some (last u))"
    "consumes a P \<longrightarrow> (\<forall>c\<in>set u. P c)" "needs a K \<longrightarrow> (\<exists>c\<in>set u. K c)"
    by blast
  from Seq.IH(2) [OF st] obtain v where v: "snd mid = v @ snd st"
    "fst st = (if v = [] then fst mid else Some (last v))"
    "consumes b P \<longrightarrow> (\<forall>c\<in>set v. P c)" "needs b K \<longrightarrow> (\<exists>c\<in>set v. K c)"
    by blast
  have "s = (u @ v) @ snd st"
    using u(1) v(1) by simp
  moreover have "fst st = (if u @ v = [] then prev else Some (last (u @ v)))"
    using u(2) v(2) by simp
  moreover have "consumes (Seq a b) P \<longrightarrow> (\<forall>c\<in>set (u @ v). P c)"
    using u(3) v(3) by auto
  moreover have "needs (Seq a b) K \<longrightarrow> (\<exists>c\<in>set (u @ v). K c)"
    using u(4) v(4) by auto
  ultimately show ?case
    by (intro exI [of _ "u @ v"]) blast
next
  case (Alt a b)
  from Alt.prems have "st \<in> set (rx_match a prev s) \<or> st \<in> set (rx_match b prev s)"
    by simp
  then show ?case
  proof
    assume "st \<in> set (rx_match a prev s)"
    from Alt.IH(1) [OF this] obtain u where u: "s = u @ snd st"
      "fst st = (if u = [] then prev else Some (last u))"
      "consumes a P \<longrightarrow> (\<forall>c\<in>set u. P c)" "needs a K \<longrightarrow> (\<exists>c\<in>set u. K c)"
      by blast
    show ?thesis
      by (rule exI [of _ u]) (use u in simp)
  next
    assume "st \<in> set (rx_match b prev s)"
    from Alt.IH(2) [OF this] obtain u where u: "s = u @ snd st"
      "fst st = (if u = [] then prev else Some (last u))"
      "consumes b P \<longrightarrow> (\<forall>c\<in>set u. P c)" "needs b K \<longrightarrow> (\<exists>c\<in>set u. K c)"
      by blast
    show ?thesis
      by (rule exI [of _ u]) (use u in simp)
  qed
next
  case (Opt a)
  from Opt.prems have "st \<in> set (rx_match a prev s) \<or> st = (prev, s)"
    by auto
  then show ?case
  proof
    assume "st \<in> set (rx_match a prev s)"
    from Opt.IH [OF this] obtain u where u: "s = u @ snd st"
      "fst st = (if u = [] then prev else Some (last u))"
      "consumes a P \<longrightarrow> (\<forall>c\<in>set u. P c)"
      by blast
    show ?thesis
      by (rule exI [of _ u]) (use u in simp)
  next
    assume "st = (prev, s)"
    then show ?thesis
      by (intro exI [of _ "[]"]) simp
  qed
next
  case (Rep m n p)
  define run where "run = length (takeWhile p s)"
  define most where "most = (case n of None \<Rightarrow> run | Some n \<Rightarrow> min run n)"
  have most: "most \<le> run"
    by (simp add: most_def split: option.splits)
  have "rx_match (Rep m n p) prev s = map (after prev s) (rev [m..<Suc most])"
    by (simp only: rx_match.simps Let_def run_def most_def)
  with Rep.prems have "st \<in> set (map (after prev s) (rev [m..<Suc most]))"
    by (simp only:)
  then have "st \<in> after prev s ` {m..<Suc most}"
    by (simp only: set_map set_rev set_upt)
  then obtain i where "i \<in> {m..<Suc most}" and st: "st = after prev s i"
    by (rule imageE)
  then have "m \<le> i" "i \<le> most"
    by simp_all
  with most have i: "m \<le> i" "i \<le> run"
    by simp_all
  have le: "i \<le> length s"
    using i(2) length_takeWhile_le [of p s] by (simp add: run_def)
  have "take i (takeWhile p s @ dropWhile p s) = take i (takeWhile p s)"
    using i(2) by (simp add: run_def del: takeWhile_dropWhile_id)
  then have tk: "take i s = take i (takeWhile p s)"
    by simp
  have allp: "\<forall>c\<in>set (take i s). p c"
    unfolding tk by (meson in_set_takeD set_takeWhileD)
  have s: "s = take i s @ snd st"
    by (simp add: st after_def)
  have f: "fst st = (if take i s = [] then prev else Some (last (take i s)))"
  proof (cases "i = 0")
    case True
    then show ?thesis by (simp add: st after_def)
  next
    case False
    with le have "take i s \<noteq> []" by auto
    moreover have "last (take i s) = s ! (i - 1)"
    proof -
      have ne: "take i s \<noteq> []"
        using False le by auto
      have "last (take i s) = take i s ! (length (take i s) - 1)"
        by (rule last_conv_nth [OF ne])
      also have "length (take i s) = i"
        using le by simp
      also have "take i s ! (i - 1) = s ! (i - 1)"
        using False by simp
      finally show ?thesis .
    qed
    ultimately show ?thesis
      using False by (simp add: st after_def)
  qed
  have c: "consumes (Rep m n p) P \<longrightarrow> (\<forall>c\<in>set (take i s). P c)"
    using allp by simp
  have k: "needs (Rep m n p) K \<longrightarrow> (\<exists>c\<in>set (take i s). K c)"
  proof
    assume n: "needs (Rep m n p) K"
    then have "0 < i" using i(1) by simp
    with le have "take i s \<noteq> []" by auto
    then obtain c where "c \<in> set (take i s)"
      by (meson last_in_set)
    with allp n show "\<exists>c\<in>set (take i s). K c"
      by auto
  qed
  show ?case
    by (rule exI [of _ "take i s"]) (use s f c k in blast)
next
  case WordB
  then have "st = (prev, s)"
    by (auto split: if_splits)
  then show ?case
    by (intro exI [of _ "[]"]) simp
qed

lemma split_before:
  assumes eq: "a @ e # rest = u @ x" and e: "e \<notin> set u"
  shows "\<exists>a2. a = u @ a2 \<and> x = a2 @ e # rest"
proof -
  from eq obtain us where
    "(a = u @ us \<and> us @ e # rest = x) \<or> (a @ us = u \<and> e # rest = us @ x)"
    by (auto simp add: append_eq_append_conv2)
  then show ?thesis
  proof
    assume "a = u @ us \<and> us @ e # rest = x"
    then show ?thesis by auto
  next
    assume h: "a @ us = u \<and> e # rest = us @ x"
    show ?thesis
    proof (cases us)
      case Nil
      with h show ?thesis by auto
    next
      case (Cons y ys)
      with h have "e = y" by simp
      with h Cons e show ?thesis by auto
    qed
  qed
qed

lemma no_match_before:
  assumes c: "consumes r P" and n: "needs r K"
    and w: "\<forall>c\<in>set w. \<not> K c" and e: "\<not> P e"
  shows "rx_match r prev (w @ e # rest) = []"
proof (rule ccontr)
  assume "rx_match r prev (w @ e # rest) \<noteq> []"
  then obtain st where "st \<in> set (rx_match r prev (w @ e # rest))"
    by (cases "rx_match r prev (w @ e # rest)") auto
  from rx_match_consumed [OF this, of P K] c n obtain u where
    u: "w @ e # rest = u @ snd st" "\<forall>c\<in>set u. P c" "\<exists>c\<in>set u. K c"
    by blast
  from u(2) e have "e \<notin> set u" by blast
  from split_before [OF u(1) this] obtain a2 where "w = u @ a2" by blast
  with w u(3) show False by auto
qed

lemma no_match_at_end:
  assumes n: "needs r K"
  shows "rx_match r prev [] = []"
proof (rule ccontr)
  assume "rx_match r prev [] \<noteq> []"
  then obtain st where "st \<in> set (rx_match r prev [])"
    by (cases "rx_match r prev []") auto
  from rx_match_consumed [OF this, of "\<lambda>c. True" K] n obtain u where
    "[] = u @ snd st" "\<exists>c\<in>set u. K c"
    by blast
  then show False by auto
qed

lemma sub_from_copy:
  assumes c: "consumes r P" and n: "needs r K"
    and w: "\<forall>c\<in>set w. \<not> K c" and e: "\<not> P e"
  shows "sub_from r repl prev (w @ e # rest) = w @ e # sub_from r repl (Some e) rest"
  using w
proof (induction w arbitrary: prev)
  case Nil
  have "rx_match r prev ([] @ e # rest) = []"
    by (rule no_match_before [OF c n _ e]) simp
  then have "rx_match r prev (e # rest) = []"
    by simp
  then show ?case
    by (simp add: sub_from.simps [of r repl prev "e # rest"])
next
  case (Cons x w)
  have "rx_match r prev ((x # w) @ e # rest) = []"
    by (rule no_match_before [OF c n Cons.prems e])
  then have "rx_match r prev (x # w @ e # rest) = []"
    by simp
  then have "sub_from r repl prev (x # w @ e # rest) = x # sub_from r repl (Some x) (w @ e # rest)"
    by (simp add: sub_from.simps [of r repl prev "x # w @ e # rest"])
  moreover have "sub_from r repl (Some x) (w @ e # rest) = w @ e # sub_from r repl (Some e) rest"
    using Cons.prems by (intro Cons.IH) simp
  ultimately show ?case by simp
qed

lemma search_copy:
  assumes c: "consumes r P" and n: "needs r K"
    and w: "\<forall>c\<in>set w. \<not> K c" and e: "\<not> P e"
  shows "rx_search r prev (w @ e # rest) = rx_search r (Some e) rest"
  using w
proof (induction w arbitrary: prev)
  case Nil
  have "rx_match r prev ([] @ e # rest) = []"
    by (rule no_match_before [OF c n _ e]) simp
  then show ?case
    by simp
next
  case (Cons x w)
  have "rx_match r prev ((x # w) @ e # rest) = []"
    by (rule no_match_before [OF c n Cons.prems e])
  then have "rx_search r prev ((x # w) @ e # rest) = rx_search r (Some x) (w @ e # rest)"
    by simp
  moreover have "rx_search r (Some x) (w @ e # rest) = rx_search r (Some e) rest"
    using Cons.prems by (intro Cons.IH) simp
  ultimately show ?case by simp
qed

lemma sub_from_token:
  assumes c: "consumes r unbracketed" and n: "needs r (\<lambda>c. \<not> token_letter c)"
    and w: "\<forall>c\<in>set w. token_letter c"
  shows "sub_from r repl prev (CHR ''['' # w @ CHR '']'' # b)
         = CHR ''['' # w @ CHR '']'' # sub_from r repl (Some CHR '']'') b"
proof -
  have "sub_from r repl prev ([] @ CHR ''['' # (w @ CHR '']'' # b))
        = [] @ CHR ''['' # sub_from r repl (Some CHR ''['') (w @ CHR '']'' # b)"
    by (rule sub_from_copy [OF c n]) (simp_all add: unbracketed_def)
  moreover have "sub_from r repl (Some CHR ''['') (w @ CHR '']'' # b)
        = w @ CHR '']'' # sub_from r repl (Some CHR '']'') b"
    by (rule sub_from_copy [OF c n]) (use w in \<open>simp_all add: unbracketed_def\<close>)
  ultimately show ?thesis by simp
qed

lemma search_token:
  assumes c: "consumes r unbracketed" and n: "needs r (\<lambda>c. \<not> token_letter c)"
    and w: "\<forall>c\<in>set w. token_letter c"
  shows "\<not> rx_search r prev (CHR ''['' # w @ [CHR '']''])"
proof -
  have "rx_search r prev ([] @ CHR ''['' # (w @ [CHR '']'']))
        = rx_search r (Some CHR ''['') (w @ [CHR '']''])"
    by (rule search_copy [OF c n]) (simp_all add: unbracketed_def)
  moreover have "rx_search r (Some CHR ''['') (w @ CHR '']'' # [])
        = rx_search r (Some CHR '']'') []"
    by (rule search_copy [OF c n]) (use w in \<open>simp_all add: unbracketed_def\<close>)
  moreover have "\<not> rx_search r (Some CHR '']'') []"
    by (simp add: no_match_at_end [OF n])
  ultimately show ?thesis by simp
qed

lemma sub_from_keeps:
  assumes c: "consumes r unbracketed" and n: "needs r (\<lambda>c. \<not> token_letter c)"
    and w: "\<forall>c\<in>set w. token_letter c"
  shows "\<exists>a'. sub_from r repl prev (a @ CHR ''['' # w @ CHR '']'' # b)
              = a' @ CHR ''['' # w @ CHR '']'' # sub_from r repl (Some CHR '']'') b"
proof (induction "length a" arbitrary: a prev rule: less_induct)
  case less
  define rest where "rest = w @ CHR '']'' # b"
  define out where "out = CHR ''['' # w @ CHR '']'' # sub_from r repl (Some CHR '']'') b"
  have ih: "\<exists>a'. sub_from r repl p (a2 @ CHR ''['' # rest) = a' @ out"
    if "length a2 < length a" for a2 p
    using less [OF that, of p] by (simp add: rest_def out_def)
  have goal: "\<exists>a'. sub_from r repl prev (a @ CHR ''['' # rest) = a' @ out"
  proof (cases a)
    case Nil
    have "sub_from r repl prev (CHR ''['' # rest) = out"
      unfolding rest_def out_def by (rule sub_from_token [OF c n w])
    with Nil show ?thesis
      by (intro exI [of _ "[]"]) simp
  next
    case (Cons x xs)
    define s where "s = x # xs @ CHR ''['' # rest"
    have s: "a @ CHR ''['' # rest = s"
      by (simp add: s_def Cons)
    show ?thesis
    proof (cases "rx_match r prev s")
      case Nil
      then have "sub_from r repl prev s = x # sub_from r repl (Some x) (xs @ CHR ''['' # rest)"
        by (simp add: sub_from.simps [of r repl prev s]) (simp add: s_def)
      moreover from ih [of xs "Some x"] Cons obtain a' where
        "sub_from r repl (Some x) (xs @ CHR ''['' # rest) = a' @ out"
        by auto
      ultimately have "sub_from r repl prev s = (x # a') @ out"
        by simp
      then show ?thesis
        unfolding s by (rule exI)
    next
      case hit: (Cons st sts)
      then have "st \<in> set (rx_match r prev s)"
        by simp
      from rx_match_consumed [OF this, of unbracketed "\<lambda>c. \<not> token_letter c"] c n
      obtain u where u: "s = u @ snd st" "\<forall>c\<in>set u. unbracketed c"
        "\<exists>c\<in>set u. \<not> token_letter c"
        by blast
      from u(3) have ne: "u \<noteq> []"
        by auto
      from u(2) have "CHR ''['' \<notin> set u"
        by (auto simp add: unbracketed_def)
      with split_before [of a "CHR ''[''" rest u "snd st"] u(1) s
      obtain a2 where a2: "a = u @ a2" "snd st = a2 @ CHR ''['' # rest"
        by auto
      from a2(1) ne have shorter: "length a2 < length a"
        by simp
      from ne have "length (snd st) < length (u @ snd st)"
        by simp
      then have "length (snd st) < length s"
        by (simp only: u(1) [symmetric])
      with hit have "sub_from r repl prev s = repl @ sub_from r repl (fst st) (snd st)"
        by (simp add: sub_from.simps [of r repl prev s])
      moreover from ih [OF shorter, of "fst st"] a2(2) obtain a' where
        "sub_from r repl (fst st) (snd st) = a' @ out"
        by auto
      ultimately have "sub_from r repl prev s = (repl @ a') @ out"
        by simp
      then show ?thesis
        unfolding s by (rule exI)
    qed
  qed
  then show ?case
    by (simp add: rest_def out_def)
qed


lemma consumes_seqs: "consumes (seqs rs) P = (\<forall>r\<in>set rs. consumes r P)"
  by (induction rs rule: seqs.induct) simp_all

lemma consumes_alts: "consumes (alts rs) P = (\<forall>r\<in>set rs. consumes r P)"
  by (induction rs rule: alts.induct) simp_all

lemma needs_seqs: "needs (seqs rs) K = (\<exists>r\<in>set rs. needs r K)"
  by (induction rs rule: seqs.induct) simp_all

lemma consumes_lit: "consumes (lit s) P = (\<forall>c\<in>set s. P c)"
  by (simp add: lit_def consumes_seqs)

lemma needs_lit: "s \<noteq> [] \<Longrightarrow> \<forall>c\<in>set s. K c \<Longrightarrow> needs (lit s) K"
  by (cases s) (simp_all add: lit_def needs_seqs)

lemma letter_unbracketed: "is_letter c \<Longrightarrow> unbracketed c"
  by (auto simp add: is_letter_def is_upper_def is_lower_def code_def unbracketed_def)

lemma digit_unbracketed: "is_digit c \<Longrightarrow> unbracketed c"
  by (auto simp add: is_digit_def code_def unbracketed_def)

lemma space_unbracketed: "is_space c \<Longrightarrow> unbracketed c"
  by (auto simp add: is_space_def Let_def unbracketed_def)

lemma digit_no_token_letter: "is_digit c \<Longrightarrow> \<not> token_letter c"
  by (auto simp add: is_digit_def is_upper_def code_def token_letter_def)

lemma lower_no_token_letter: "is_lower c \<Longrightarrow> \<not> token_letter c"
  by (auto simp add: is_lower_def is_upper_def code_def token_letter_def)

lemma space_no_token_letter: "is_space c \<Longrightarrow> \<not> token_letter c"
  by (auto simp add: is_space_def Let_def is_upper_def code_def token_letter_def)

lemma same_letter_letter: "is_letter l \<Longrightarrow> same_letter l c \<Longrightarrow> is_letter c"
  by (auto simp add: same_letter_def is_letter_def is_upper_def is_lower_def)

lemma consumes_lit_i:
  assumes "\<forall>l\<in>set s. is_letter l"
  shows "consumes (lit_i s) unbracketed"
  using assms by (auto simp add: lit_i_def consumes_seqs dest: same_letter_letter letter_unbracketed)

lemma is_letter_chars:
  "\<forall>l\<in>set ''StreetAvenueRoadBoulevardBlvdLaneLnDriveDrCourtCtPlacePl''. is_letter l"
  by (simp add: is_letter_def is_upper_def is_lower_def code_def)

lemma ssn_safe:
  "consumes ssn_pattern unbracketed" "needs ssn_pattern (\<lambda>c. \<not> token_letter c)"
  by (auto simp add: ssn_pattern_def consumes_lit digit_no_token_letter unbracketed_def
      is_digit_def code_def)

lemma email_safe:
  "consumes email_pattern unbracketed" "needs email_pattern (\<lambda>c. \<not> token_letter c)"
proof -
  show "consumes email_pattern unbracketed"
    by (auto simp add: email_pattern_def consumes_lit unbracketed_def
        dest: letter_unbracketed digit_unbracketed)
  have "needs (lit ''@'') (\<lambda>c. \<not> token_letter c)"
    by (rule needs_lit) (simp_all add: token_letter_def is_upper_def code_def)
  then show "needs email_pattern (\<lambda>c. \<not> token_letter c)"
    by (simp add: email_pattern_def)
qed

lemma phone_safe:
  "consumes phone_pattern unbracketed" "needs phone_pattern (\<lambda>c. \<not> token_letter c)"
  by (auto simp add: phone_pattern_def digit_no_token_letter unbracketed_def
      is_digit_def code_def)

lemma address_safe:
  "consumes address_pattern unbracketed" "needs address_pattern (\<lambda>c. \<not> token_letter c)"
proof -
  have "consumes (lit_i s) unbracketed"
    if "s \<in> set [''Street'', ''St'', ''Avenue'', ''Ave'', ''Road'', ''Rd'',
                  ''Boulevard'', ''Blvd'', ''Lane'', ''Ln'', ''Drive'', ''Dr'',
                  ''Court'', ''Ct'', ''Place'', ''Pl'']" for s
    using that is_letter_chars by (intro consumes_lit_i) auto
  then have "consumes (alts (map lit_i [''Street'', ''St'', ''Avenue'', ''Ave'', ''Road'', ''Rd'',
                  ''Boulevard'', ''Blvd'', ''Lane'', ''Ln'', ''Drive'', ''Dr'',
                  ''Court'', ''Ct'', ''Place'', ''Pl''])) unbracketed"
    unfolding consumes_alts by (simp only: set_map) blast
  then show "consumes address_pattern unbracketed"
    unfolding address_pattern_def
    by (auto simp add: dest: letter_unbracketed digit_unbracketed space_unbracketed)
  show "needs address_pattern (\<lambda>c. \<not> token_letter c)"
    unfolding address_pattern_def
    by (simp add: digit_no_token_letter)
qed

lemma amount_safe:
  "consumes amount_pattern unbracketed" "needs amount_pattern (\<lambda>c. \<not> token_letter c)"
proof -
  show "consumes amount_pattern unbracketed"
    by (auto simp add: amount_pattern_def consumes_lit unbracketed_def dest: digit_unbracketed)
  have "needs (lit ''$'') (\<lambda>c. \<not> token_letter c)"
    by (rule needs_lit) (simp_all add: token_letter_def is_upper_def code_def)
  then show "needs amount_pattern (\<lambda>c. \<not> token_letter c)"
    by (simp add: amount_pattern_def)
qed

lemma upper_unbracketed: "is_upper c \<Longrightarrow> unbracketed c"
  by (simp add: letter_unbracketed is_letter_def)

lemma lower_unbracketed: "is_lower c \<Longrightarrow> unbracketed c"
  by (simp add: letter_unbracketed is_letter_def)

lemma first_last_safe:
  "consumes first_last_pattern unbracketed" "needs first_last_pattern (\<lambda>c. \<not> token_letter c)"
  by (auto simp add: first_last_pattern_def consumes_lit lower_no_token_letter unbracketed_def
      is_upper_def is_lower_def code_def)

lemma title_name_safe:
  "consumes title_name_pattern unbracketed" "needs title_name_pattern (\<lambda>c. \<not> token_letter c)"
proof -
  have "consumes (alts (map lit [''Mr.'', ''Mrs.'', ''Ms.'', ''Dr.''])) unbracketed"
    by (simp add: consumes_lit unbracketed_def)
  then show "consumes title_name_pattern unbracketed"
    unfolding title_name_pattern_def
    by (simp add: upper_unbracketed lower_unbracketed space_unbracketed)
  show "needs title_name_pattern (\<lambda>c. \<not> token_letter c)"
    unfolding title_name_pattern_def
    by (simp add: space_no_token_letter lower_no_token_letter)
qed

lemma sensitive_safe:
  assumes "pr \<in> set sensitive_patterns"
  shows "consumes (fst pr) unbracketed \<and> needs (fst pr) (\<lambda>c. \<not> token_letter c)"
  using assms ssn_safe email_safe phone_safe address_safe amount_safe
  by (auto simp add: sensitive_patterns_def)

lemma names_safe:
  assumes "r \<in> set name_patterns"
  shows "consumes r unbracketed \<and> needs r (\<lambda>c. \<not> token_letter c)"
  using assms first_last_safe title_name_safe
  by (auto simp add: name_patterns_def)

lemma token_shape:
  assumes "tok \<in> set redaction_tokens"
  shows "\<exists>w. tok = CHR ''['' # w @ [CHR '']''] \<and> (\<forall>c\<in>set w. token_letter c)"
proof -
  have "redaction_tokens = map (\<lambda>w. CHR ''['' # w @ [CHR '']''])
      [''SSN_REDACTED'', ''EMAIL_REDACTED'', ''PHONE_REDACTED'', ''ADDRESS_REDACTED'',
       ''AMOUNT_REDACTED'', ''NAME_REDACTED'']"
    by (simp add: redaction_tokens_def)
  from assms [unfolded this] have "tok \<in> (\<lambda>w. CHR ''['' # w @ [CHR '']'']) `
      set [''SSN_REDACTED'', ''EMAIL_REDACTED'', ''PHONE_REDACTED'', ''ADDRESS_REDACTED'',
       ''AMOUNT_REDACTED'', ''NAME_REDACTED'']"
    by (simp only: set_map)
  then obtain w where w: "w \<in> set [''SSN_REDACTED'', ''EMAIL_REDACTED'', ''PHONE_REDACTED'',
       ''ADDRESS_REDACTED'', ''AMOUNT_REDACTED'', ''NAME_REDACTED'']"
    and tok: "tok = CHR ''['' # w @ [CHR '']'']"
    by (rule imageE)
  have "\<forall>w\<in>set [''SSN_REDACTED'', ''EMAIL_REDACTED'', ''PHONE_REDACTED'',
       ''ADDRESS_REDACTED'', ''AMOUNT_REDACTED'', ''NAME_REDACTED'']. \<forall>c\<in>set w. token_letter c"
    by (simp add: token_letter_def is_upper_def code_def)
  from this w have "\<forall>c\<in>set w. token_letter c"
    by (rule bspec)
  with tok show ?thesis by blast
qed

lemma re_sub_keeps:
  assumes c: "consumes r unbracketed" and n: "needs r (\<lambda>c. \<not> token_letter c)"
    and tok: "tok \<in> set redaction_tokens" and sub: "sublist tok t"
  shows "sublist tok (re_sub r repl t)"
proof -
  from token_shape [OF tok] obtain w where w: "tok = CHR ''['' # w @ [CHR '']'']"
    "\<forall>c\<in>set w. token_letter c"
    by blast
  from sub obtain a b where "t = a @ tok @ b"
    by (auto simp add: sublist_def)
  with w(1) have t: "t = a @ CHR ''['' # w @ CHR '']'' # b"
    by simp
  from sub_from_keeps [OF c n w(2), of repl None a b] obtain a' where
    "sub_from r repl None t = a' @ CHR ''['' # w @ CHR '']'' # sub_from r repl (Some CHR '']'') b"
    unfolding t by blast
  then have "re_sub r repl t = a' @ tok @ sub_from r repl (Some CHR '']'') b"
    by (simp add: re_sub_def w(1))
  then show ?thesis
    unfolding sublist_def by blast
qed

lemma re_sub_token:
  assumes c: "consumes r unbracketed" and n: "needs r (\<lambda>c. \<not> token_letter c)"
    and tok: "tok \<in> set redaction_tokens"
  shows "re_sub r repl tok = tok"
proof -
  from token_shape [OF tok] obtain w where w: "tok = CHR ''['' # w @ [CHR '']'']"
    "\<forall>c\<in>set w. token_letter c"
    by blast
  have "sub_from r repl (Some CHR '']'') [] = []"
    by (simp add: sub_from.simps [of r repl "Some CHR '']''" "[]"] no_match_at_end [OF n])
  with sub_from_token [OF c n w(2), of repl None "[]"] show ?thesis
    by (simp add: re_sub_def w(1))
qed

lemma redact_keeps:
  assumes "set ps \<subseteq> set sensitive_patterns" and "tok \<in> set redaction_tokens"
    and "sublist tok t"
  shows "sublist tok (redact ps t)"
  using assms(1,3)
proof (induction ps arbitrary: t)
  case Nil
  then show ?case by (simp add: redact_def)
next
  case (Cons pr ps)
  from Cons.prems(1) have "pr \<in> set sensitive_patterns"
    by simp
  from sensitive_safe [OF this] have "sublist tok (re_sub (fst pr) (snd pr) t)"
    using re_sub_keeps assms(2) Cons.prems(2) by blast
  with Cons.IH [of "re_sub (fst pr) (snd pr) t"] Cons.prems(1)
  have "sublist tok (redact ps (re_sub (fst pr) (snd pr) t))"
    by simp
  then show ?case
    by (simp add: redact_def)
qed

lemma redact_token:
  assumes "set ps \<subseteq> set sensitive_patterns" and "tok \<in> set redaction_tokens"
  shows "redact ps tok = tok"
  using assms(1)
proof (induction ps)
  case Nil
  then show ?case by (simp add: redact_def)
next
  case (Cons pr ps)
  from Cons.prems have "pr \<in> set sensitive_patterns"
    by simp
  from sensitive_safe [OF this] have "re_sub (fst pr) (snd pr) tok = tok"
    using re_sub_token assms(2) by blast
  moreover from Cons have "redact ps tok = tok"
    by simp
  ultimately show ?case
    by (simp add: redact_def)
qed

lemma anonymize_names_keeps:
  assumes "tok \<in> set redaction_tokens" and "sublist tok t"
  shows "sublist tok (anonymize_names t)"
proof -
  have "sublist tok (re_sub first_last_pattern ''[NAME_REDACTED]'' t)"
    by (rule re_sub_keeps [OF first_last_safe assms])
  then have "sublist tok (re_sub title_name_pattern ''[NAME_REDACTED]''
      (re_sub first_last_pattern ''[NAME_REDACTED]'' t))"
    by (rule re_sub_keeps [OF title_name_safe assms(1)])
  then show ?thesis
    by (simp add: anonymize_names_def name_patterns_def)
qed

lemma anonymize_names_token:
  assumes "tok \<in> set redaction_tokens"
  shows "anonymize_names tok = tok"
  by (simp add: anonymize_names_def name_patterns_def
      re_sub_token [OF first_last_safe assms] re_sub_token [OF title_name_safe assms])


lemma sub_from_no_match:
  assumes "\<not> rx_search r prev s"
  shows "sub_from r repl prev s = s"
  using assms
proof (induction s arbitrary: prev)
  case Nil
  then have "rx_match r prev [] = []"
    by simp
  then show ?case
    by (simp add: sub_from.simps [of r repl prev "[]"])
next
  case (Cons x xs)
  then have m: "rx_match r prev (x # xs) = []" and "\<not> rx_search r (Some x) xs"
    by simp_all
  from Cons.IH [OF this(2)] m show ?case
    by (simp add: sub_from.simps [of r repl prev "x # xs"])
qed

lemma redact_no_match:
  assumes "\<forall>pr\<in>set ps. \<not> rx_search (fst pr) None s"
  shows "redact ps s = s"
  using assms
proof (induction ps)
  case Nil
  then show ?case by (simp add: redact_def)
next
  case (Cons pr ps)
  then have "re_sub (fst pr) (snd pr) s = s" and "redact ps s = s"
    by (simp_all add: re_sub_def sub_from_no_match)
  then show ?case
    by (simp add: redact_def)
qed

lemma anonymize_names_no_match:
  assumes "\<forall>r\<in>set name_patterns. \<not> rx_search r None s"
  shows "anonymize_names s = s"
  using assms
  by (simp add: anonymize_names_def name_patterns_def re_sub_def sub_from_no_match)

lemma anonymize_content_no_match:
  assumes "\<forall>r\<in>set (map fst sensitive_patterns @ name_patterns). \<not> rx_search r None s"
  shows "anonymize_content s = s"
proof -
  from assms have "redact sensitive_patterns s = s"
    by (intro redact_no_match) simp
  moreover from assms have "anonymize_names s = s"
    by (intro anonymize_names_no_match) simp
  ultimately show ?thesis
    by (simp add: anonymize_content_def)
qed

lemma token_unmatched:
  assumes tok: "tok \<in> set redaction_tokens"
    and r: "r \<in> set (map fst sensitive_patterns @ name_patterns)"
  shows "\<not> rx_search r None tok"
proof -
  from r sensitive_safe names_safe
  have safe: "consumes r unbracketed" "needs r (\<lambda>c. \<not> token_letter c)"
    by auto
  from token_shape [OF tok] obtain w where w: "tok = CHR ''['' # w @ [CHR '']'']"
    "\<forall>c\<in>set w. token_letter c"
    by blast
  show ?thesis
    unfolding w(1) by (rule search_token [OF safe w(2)])
qed

lemma anonymize_content_keeps:
  assumes "tok \<in> set redaction_tokens" and "sublist tok t"
  shows "sublist tok (anonymize_content t)"
  unfolding anonymize_content_def
  by (intro anonymize_names_keeps redact_keeps assms) simp




text \<open>
  C10, as claimed: anonymizing twice gives the same text as anonymizing once. The text
  \<^verbatim>\<open>$5.00123-45-6789\<close> refutes it: the first run writes \<^verbatim>\<open>[AMOUNT_REDACTED]123-45-6789\<close>
  (the SSN pattern does not match behind the digit \<^verbatim>\<open>0\<close>), and in that output the token's
  closing bracket is a word boundary, so the second run redacts the SSN as well.
\<close>

theorem anonymize_content_twice_differs:
  "anonymize_content ''$5.00123-45-6789'' = ''[AMOUNT_REDACTED]123-45-6789''
   \<and> anonymize_content (anonymize_content ''$5.00123-45-6789'')
       = ''[AMOUNT_REDACTED][SSN_REDACTED]''
   \<and> anonymize_content (anonymize_content ''$5.00123-45-6789'')
       \<noteq> anonymize_content ''$5.00123-45-6789''"
proof -
  have a: "anonymize_content ''$5.00123-45-6789'' = ''[AMOUNT_REDACTED]123-45-6789''"
    by code_simp
  have b: "anonymize_content ''[AMOUNT_REDACTED]123-45-6789'' = ''[AMOUNT_REDACTED][SSN_REDACTED]''"
    by code_simp
  show ?thesis
    by (simp add: a b)
qed

text \<open>
  C10, amended: no redaction token is matched by any of the seven patterns, and every
  redaction token that occurs in a text occurs in the anonymized text; a text that none
  of the patterns matches is returned unchanged, so anonymizing twice gives the same
  text as anonymizing once whenever no pattern matches the result of the first run.
\<close>

theorem redaction_tokens_survive:
  "(\<forall>tok\<in>set redaction_tokens.
      (\<forall>r\<in>set (map fst sensitive_patterns @ name_patterns). \<not> rx_search r None tok)
      \<and> (sublist tok t \<longrightarrow> sublist tok (anonymize_content t)))
   \<and> ((\<forall>r\<in>set (map fst sensitive_patterns @ name_patterns).
         \<not> rx_search r None (anonymize_content t))
       \<longrightarrow> anonymize_content (anonymize_content t) = anonymize_content t)"
proof (intro conjI ballI impI)
  fix tok r
  assume "tok \<in> set redaction_tokens" "r \<in> set (map fst sensitive_patterns @ name_patterns)"
  then show "\<not> rx_search r None tok"
    by (rule token_unmatched)
next
  fix tok
  assume "tok \<in> set redaction_tokens" "sublist tok t"
  then show "sublist tok (anonymize_content t)"
    by (rule anonymize_content_keeps)
next
  assume "\<forall>r\<in>set (map fst sensitive_patterns @ name_patterns).
         \<not> rx_search r None (anonymize_content t)"
  then show "anonymize_content (anonymize_content t) = anonymize_content t"
    by (rule anonymize_content_no_match)
qed

theorem redaction_tokens_survive_witness:
  "''[SSN_REDACTED]'' \<in> set redaction_tokens
   \<and> ssn_pattern \<in> set (map fst sensitive_patterns @ name_patterns)
   \<and> \<not> rx_search ssn_pattern None ''[SSN_REDACTED]''
   \<and> sublist ''[SSN_REDACTED]'' ''[SSN_REDACTED] $5''
   \<and> sublist ''[SSN_REDACTED]'' (anonymize_content ''[SSN_REDACTED] $5'')
   \<and> list_all (\<lambda>r. \<not> rx_search r None (anonymize_content ''[SSN_REDACTED] $5''))
         (map fst sensitive_patterns @ name_patterns)
   \<and> anonymize_content (anonymize_content ''[SSN_REDACTED] $5'')
       = anonymize_content ''[SSN_REDACTED] $5''"
proof -
  have tok: "''[SSN_REDACTED]'' \<in> set redaction_tokens"
    by (simp add: redaction_tokens_def)
  have r: "ssn_pattern \<in> set (map fst sensitive_patterns @ name_patterns)"
    by (simp add: sensitive_patterns_def)
  have s: "sublist ''[SSN_REDACTED]'' ''[SSN_REDACTED] $5''"
    by code_simp
  have a: "anonymize_content ''[SSN_REDACTED] $5'' = ''[SSN_REDACTED] [AMOUNT_REDACTED]''"
    by code_simp
  have "list_all (\<lambda>r. \<not> rx_search r None ''[SSN_REDACTED] [AMOUNT_REDACTED]'')
      (map fst sensitive_patterns @ name_patterns)"
    by code_simp
  then have l: "list_all (\<lambda>r. \<not> rx_search r None (anonymize_content ''[SSN_REDACTED] $5''))
      (map fst sensitive_patterns @ name_patterns)"
    by (simp only: a)
  then have n: "\<forall>r\<in>set (map fst sensitive_patterns @ name_patterns).
      \<not> rx_search r None (anonymize_content ''[SSN_REDACTED] $5'')"
    by (simp only: list_all_iff)
  from redaction_tokens_survive [of "''[SSN_REDACTED] $5''"] tok r s n l
  show ?thesis
    by blast
qed

end
